theory Spec2Isabelle
  imports Complex_Main
begin

section \<open>Values and data frames\<close>

text \<open>
  The values that reach the programs are JSON values (the request body of the prediction
  service) and spreadsheet cells (the data shaper). Python compares numbers by value
  (\<open>0 == 0.0\<close>), so integers and floats share the constructor \<open>PyNum\<close>; the float
  \<open>nan\<close>, which pandas uses for a missing cell, is \<open>PyNaN\<close>. Infinite floats are left out.
\<close>

datatype pyval =
    PyNone
  | PyBool bool
  | PyNum real
  | PyNaN
  | PyStr string
  | PyList "pyval list"
  | PyDict "(string \<times> pyval) list"

text \<open>
  A Python \<open>dict\<close> keeps its keys in insertion order and holds each key once: an association
  list. \<open>dict_get\<close> is the test \<open>k in d\<close> together with \<open>d[k]\<close> (\<open>None\<close>: the key is absent),
  \<open>dict_set\<close> is \<open>d[k] = v\<close>.
\<close>

type_synonym 'v pydict = "(string \<times> 'v) list"

definition dict_get :: "'v pydict \<Rightarrow> string \<Rightarrow> 'v option" where
  "dict_get d k = map_of d k"

fun dict_set :: "string \<Rightarrow> 'v \<Rightarrow> 'v pydict \<Rightarrow> 'v pydict" where
  "dict_set k v [] = [(k, v)]"
| "dict_set k v ((k', v') # kvs) =
     (if k = k' then (k, v) # kvs else (k', v') # dict_set k v kvs)"

text \<open>
  A pandas \<open>DataFrame\<close> is held column by column, as pandas holds it: the length of the row
  index and the named columns in their order. Column names may repeat (pandas allows it).
\<close>

record frame =
  nrows :: nat
  cols :: "(string \<times> pyval list) list"

definition columns :: "frame \<Rightarrow> string list" where
  "columns df = map fst (cols df)"

text \<open>\<open>pd.DataFrame([d])\<close> for a dict \<open>d\<close>: one row, a column per key, in the dict's order.\<close>

definition DataFrame_of_row :: "pyval pydict \<Rightarrow> frame" where
  "DataFrame_of_row d = \<lparr>nrows = 1, cols = map (\<lambda>(k, v). (k, [v])) d\<rparr>"

text \<open>
  \<open>df[c] = values\<close>: every column named \<open>c\<close> is replaced where it stands; a new name is
  appended as the last column.
\<close>

definition set_column :: "string \<Rightarrow> pyval list \<Rightarrow> frame \<Rightarrow> frame" where
  "set_column c vs df =
     (if c \<in> set (columns df)
      then df\<lparr>cols := map (\<lambda>(k, old). if k = c then (k, vs) else (k, old)) (cols df)\<rparr>
      else df\<lparr>cols := cols df @ [(c, vs)]\<rparr>)"

text \<open>\<open>df[c] = x\<close> for a scalar \<open>x\<close>: the scalar is repeated down the index.\<close>

definition set_scalar :: "string \<Rightarrow> pyval \<Rightarrow> frame \<Rightarrow> frame" where
  "set_scalar c x df = set_column c (replicate (nrows df) x) df"

text \<open>\<open>df[c]\<close> as a series: the first column of that name (the names are unique where it is used).\<close>

definition get_column :: "frame \<Rightarrow> string \<Rightarrow> pyval list option" where
  "get_column df c = map_of (cols df) c"

text \<open>
  \<open>df[names]\<close> for a list of names: \<open>KeyError\<close> when a name is no column; otherwise, for each
  name in turn, every column of that name.
\<close>

definition select_columns :: "string list \<Rightarrow> frame \<Rightarrow> string + frame" where
  "select_columns names df =
     (if \<forall>c \<in> set names. c \<in> set (columns df)
      then Inr (df\<lparr>cols := concat (map (\<lambda>c. filter (\<lambda>(k, vs). k = c) (cols df)) names)\<rparr>)
      else Inl ''KeyError: not in index'')"

section \<open>The prediction service (app.py)\<close>

subsection \<open>What the service is given\<close>

text \<open>
  The scaler and the classifier are unpickled third-party objects. A call on them either
  raises (\<open>Inl\<close> the text of the exception) or returns. The scaler may record the names of
  the features it was fitted on; its \<open>transform\<close> returns the transformed row of the
  one-row frame. The classifier returns one label and one probability vector per row.
  The attributes \<open>feature_names_in_\<close> and \<open>feature_importances_\<close> are written without their
  last underscore.
\<close>

record scaler =
  feature_names_in :: "string list option"
  transform :: "frame \<Rightarrow> string + pyval list"

record classifier =
  model_predict :: "frame \<Rightarrow> string + int list"
  model_predict_proba :: "frame \<Rightarrow> string + real list list"
  feature_importances :: "real list"

text \<open>
  \<open>GDMPredictor\<close>: the attributes that \<open>load_model\<close> and \<open>load_scaler\<close> leave (\<open>None\<close> when the
  file is absent or unreadable). \<open>self.feature_columns\<close> is set once in \<open>__init__\<close> and never
  assigned again; it is the constant \<open>feature_columns\<close>.
\<close>

record GDMPredictor =
  model :: "classifier option"
  scaler :: "scaler option"

definition feature_columns :: "string list" where
  "feature_columns =
    [''oneHourGlucose'', ''bpSystolic'', ''bmiBaseline'', ''fastingBloodGlucose'',
     ''weightKg'', ''pulseHeartRate'', ''hypertensiveDisorders'', ''typeOfTreatment'',
     ''twoHourGlucose'', ''nationality'', ''ageYears'', ''bpDiastolic'', ''height'',
     ''weightGainDuringPregnancy'']"

text \<open>
  The arithmetic of the platform, which the source leaves to Python, numpy and pandas:
  how pandas reads a string as a number (\<open>None\<close>: it does not parse), the rounding of the
  probability array's float type after a multiplication, and the rounding of a decimal
  to the nearest double.
\<close>

record platform =
  parse_number :: "string \<Rightarrow> real option"
  fl_array :: "real \<Rightarrow> real"
  fl_double :: "real \<Rightarrow> real"

datatype error = ValueError string

subsection \<open>preprocess\_input\<close>

definition mapping :: "(string \<times> string) list" where
  "mapping =
    [(''oneHourGlucose'', ''oneHourGlucose''),
     (''bpSystolic'', ''bpSystolic''),
     (''bmiBaseline'', ''bmiBaseline''),
     (''fastingBloodGlucose'', ''fastingBloodGlucose''),
     (''weightKg'', ''weightKg''),
     (''pulseHeartRate'', ''pulseHeartRate''),
     (''hypertensiveDisorders'', ''hypertensiveDisorders''),
     (''typeOfTreatment'', ''typeOfTreatment''),
     (''twoHourGlucose'', ''twoHourGlucose''),
     (''nationality'', ''nationality''),
     (''ageYears'', ''ageYears''),
     (''bpDiastolic'', ''bpDiastolic''),
     (''height'', ''height''),
     (''weightGainDuringPregnancy'', ''weightGainDuringPregnancy'')]"

text \<open>
  Lines 97-100: the loop over \<open>mapping.items()\<close> that copies the known keys of the request
  into \<open>processed_data\<close>. The frame built from the raw request at line 77 is replaced at
  line 102 before anything reads it.
\<close>

fun rename_keys :: "(string \<times> string) list \<Rightarrow> pyval pydict \<Rightarrow> pyval pydict \<Rightarrow> pyval pydict" where
  "rename_keys [] patient_data processed_data = processed_data"
| "rename_keys ((frontend_key, model_key) # rest) patient_data processed_data =
     (case dict_get patient_data frontend_key of
        Some v \<Rightarrow> rename_keys rest patient_data (dict_set model_key v processed_data)
      | None \<Rightarrow> rename_keys rest patient_data processed_data)"

definition numerical_columns :: "string list" where
  "numerical_columns =
    [''oneHourGlucose'', ''bpSystolic'', ''bmiBaseline'', ''fastingBloodGlucose'',
     ''weightKg'', ''pulseHeartRate'', ''twoHourGlucose'', ''ageYears'',
     ''bpDiastolic'', ''height'', ''weightGainDuringPregnancy'']"

text \<open>
  \<open>pd.to_numeric(_, errors='coerce')\<close> on one cell: numbers and booleans stay, a string
  becomes the number it parses to, and everything else becomes \<open>nan\<close>.
\<close>

fun to_numeric :: "platform \<Rightarrow> pyval \<Rightarrow> pyval" where
  "to_numeric p (PyNum x) = PyNum x"
| "to_numeric p (PyBool b) = PyBool b"
| "to_numeric p (PyStr s) = (case parse_number p s of Some x \<Rightarrow> PyNum x | None \<Rightarrow> PyNaN)"
| "to_numeric p PyNaN = PyNaN"
| "to_numeric p PyNone = PyNaN"
| "to_numeric p (PyList xs) = PyNaN"
| "to_numeric p (PyDict kvs) = PyNaN"

text \<open>\<open>fillna(x)\<close> on one cell: \<open>nan\<close> and \<open>None\<close> are the missing values.\<close>

fun fillna :: "pyval \<Rightarrow> pyval \<Rightarrow> pyval" where
  "fillna x PyNaN = x"
| "fillna x PyNone = x"
| "fillna x v = v"

text \<open>Lines 110-112: the loop over the numerical columns.\<close>

fun coerce_numerical :: "platform \<Rightarrow> string list \<Rightarrow> frame \<Rightarrow> frame" where
  "coerce_numerical p [] df = df"
| "coerce_numerical p (col # rest) df =
     coerce_numerical p rest
       (case get_column df col of
          Some vs \<Rightarrow> set_column col (map (fillna (PyNum 0) \<circ> to_numeric p) vs) df
        | None \<Rightarrow> df)"

definition categorical_mappings :: "(string \<times> (string \<times> int) list) list" where
  "categorical_mappings =
    [(''hypertensiveDisorders'',
        [(''No'', 0), (''no'', 0), (''NO'', 0), (''Nil'', 0),
         (''Yes'', 1), (''yes'', 1), (''Yes '', 1)]),
     (''typeOfTreatment'',
        [(''No Treatment'', 0),
         (''Metformin'', 1), (''metformin'', 1), (''metformin '', 1),
         (''Metformin '', 1), (''MetFORMIN'', 1),
         (''750, 500, 750'', 2), (''yes 1000BD'', 2), (''yes 500 od'', 2), (''yes'', 2)]),
     (''nationality'',
        [(''UAE'', 0), (''India'', 1), (''Lebanon'', 2), (''Sudan'', 3),
         (''United States'', 4), (''Comoros'', 5), (''Oman'', 6), (''Iran'', 7),
         (''Philippenes'', 8), (''United Kingdom'', 9), (''Philippines'', 8),
         (''Pakistan'', 10), (''Bangladesh'', 11), (''Egypt'', 12), (''Jordan'', 13),
         (''Syria'', 14), (''Morocco'', 15), (''Yemen'', 16), (''Somalia'', 17)])]"

definition quoted :: "string \<Rightarrow> string" where
  "quoted s = [CHR 0x27] @ s @ [CHR 0x27]"

text \<open>
  \<open>Series.map(table)\<close> on one cell, for a table keyed by strings. The cell is looked up by
  hashing: a string is found or not (\<open>nan\<close>), a number, a boolean, \<open>None\<close> and \<open>nan\<close> equal no
  string key (\<open>nan\<close>), and a list or a dict cannot be hashed, which raises \<open>TypeError\<close>.
\<close>

fun series_map :: "(string \<times> int) list \<Rightarrow> pyval \<Rightarrow> string + pyval" where
  "series_map table (PyStr s) =
     Inr (case map_of table s of Some n \<Rightarrow> PyNum (of_int n) | None \<Rightarrow> PyNaN)"
| "series_map table (PyList xs) = Inl (''unhashable type: '' @ quoted ''list'')"
| "series_map table (PyDict kvs) = Inl (''unhashable type: '' @ quoted ''dict'')"
| "series_map table v = Inr PyNaN"

fun map_cells :: "('a \<Rightarrow> string + 'b) \<Rightarrow> 'a list \<Rightarrow> string + 'b list" where
  "map_cells f [] = Inr []"
| "map_cells f (x # xs) =
     (case f x of
        Inl e \<Rightarrow> Inl e
      | Inr y \<Rightarrow> (case map_cells f xs of Inl e \<Rightarrow> Inl e | Inr ys \<Rightarrow> Inr (y # ys)))"

text \<open>Lines 138-140: the loop over \<open>categorical_mappings.items()\<close>.\<close>

fun apply_categorical :: "(string \<times> (string \<times> int) list) list \<Rightarrow> frame \<Rightarrow> string + frame" where
  "apply_categorical [] df = Inr df"
| "apply_categorical ((col, table) # rest) df =
     (case get_column df col of
        None \<Rightarrow> apply_categorical rest df
      | Some vs \<Rightarrow>
          (case map_cells (series_map table) vs of
             Inl e \<Rightarrow> Inl e
           | Inr ws \<Rightarrow> apply_categorical rest (set_column col (map (fillna (PyNum 0)) ws) df)))"

text \<open>Lines 143-145: every expected column that is still absent is added, holding 0.\<close>

fun add_missing :: "string list \<Rightarrow> frame \<Rightarrow> frame" where
  "add_missing [] df = df"
| "add_missing (col # rest) df =
     add_missing rest (if col \<notin> set (columns df) then set_scalar col (PyNum 0) df else df)"

text \<open>
  Lines 77-148: everything before the scaling, with the exceptions of the library calls
  as \<open>Inl\<close>.
\<close>

definition align_features :: "platform \<Rightarrow> pyval pydict \<Rightarrow> string + frame" where
  "align_features p patient_data =
     (let processed_data = rename_keys mapping patient_data [];
          gdm_df = DataFrame_of_row processed_data;
          gdm_df = coerce_numerical p numerical_columns gdm_df
      in case apply_categorical categorical_mappings gdm_df of
           Inl e \<Rightarrow> Inl e
         | Inr gdm_df \<Rightarrow> select_columns feature_columns (add_missing feature_columns gdm_df))"

text \<open>
  \<open>pd.DataFrame(array, columns=names)\<close> for a one-row array: the shapes must agree.
\<close>

definition DataFrame_of_array :: "pyval list \<Rightarrow> string list \<Rightarrow> string + frame" where
  "DataFrame_of_array row names =
     (if length row = length names
      then Inr \<lparr>nrows = 1, cols = zip names (map (\<lambda>v. [v]) row)\<rparr>
      else Inl ''Shape of passed values does not match the columns'')"

text \<open>
  \<open>df[names] = array\<close> for a one-row array: the columns are set one by one, and the shapes
  must agree.
\<close>

definition set_columns_array :: "string list \<Rightarrow> pyval list \<Rightarrow> frame \<Rightarrow> string + frame" where
  "set_columns_array names row df =
     (if length row = length names \<and> nrows df = 1
      then Inr (fold (\<lambda>(c, v). set_column c [v]) (zip names row) df)
      else Inl ''Columns must be same length as key'')"

text \<open>
  Lines 151-171. The inner \<open>try\<close> swallows every exception of the scaling and leaves the
  unscaled frame.
\<close>

definition apply_scaler :: "GDMPredictor \<Rightarrow> frame \<Rightarrow> frame" where
  "apply_scaler self gdm_df =
     (case scaler self of
        None \<Rightarrow> gdm_df
      | Some sc \<Rightarrow>
          (if (case feature_names_in sc of
                 Some names \<Rightarrow> length names = length feature_columns
               | None \<Rightarrow> False)
           then (case transform sc gdm_df of
                   Inl e \<Rightarrow> gdm_df
                 | Inr row \<Rightarrow>
                     (case DataFrame_of_array row (columns gdm_df) of
                        Inl e \<Rightarrow> gdm_df
                      | Inr gdm_df_scaled \<Rightarrow> gdm_df_scaled))
           else (case select_columns numerical_columns gdm_df of
                   Inl e \<Rightarrow> gdm_df
                 | Inr numeric \<Rightarrow>
                     (case transform sc numeric of
                        Inl e \<Rightarrow> gdm_df
                      | Inr row \<Rightarrow>
                          (case set_columns_array numerical_columns row gdm_df of
                             Inl e \<Rightarrow> gdm_df
                           | Inr gdm_df_copy \<Rightarrow> gdm_df_copy)))))"

definition preprocess_input :: "platform \<Rightarrow> GDMPredictor \<Rightarrow> pyval pydict \<Rightarrow> error + frame" where
  "preprocess_input p self patient_data =
     (case align_features p patient_data of
        Inl e \<Rightarrow> Inl (ValueError (''Data preprocessing failed: '' @ e))
      | Inr gdm_df \<Rightarrow> Inr (apply_scaler self gdm_df))"

subsection \<open>sendFI and predict\<close>

text \<open>
  \<open>sendFI\<close>: the frame of feature names and importances (its construction raises when the
  two lengths differ), sorted by importance, largest first. pandas sorts the reversed
  column ascending and reverses the result, so equal importances keep their order.
\<close>

definition sendFI :: "classifier \<Rightarrow> string + (string \<times> real) list" where
  "sendFI m =
     (if length (feature_importances m) = length feature_columns
      then Inr (sort_key (\<lambda>(feature, importance). - importance)
                  (zip feature_columns (feature_importances m)))
      else Inl ''All arrays must be of the same length'')"

text \<open>The builtin \<open>max\<close>: \<open>ValueError\<close> on an empty sequence.\<close>

fun py_max :: "real list \<Rightarrow> string + real" where
  "py_max [] = Inl ''max() arg is an empty sequence''"
| "py_max (x # xs) = Inr (fold max xs x)"

text \<open>\<open>a[0]\<close> on an array: \<open>IndexError\<close> when it is empty.\<close>

fun first_item :: "'a list \<Rightarrow> string + 'a" where
  "first_item [] = Inl ''index 0 is out of bounds for axis 0 with size 0''"
| "first_item (x # xs) = Inr x"

text \<open>
  \<open>round(x, 2)\<close> on a float: the decimal with two digits nearest to the exact value of
  \<open>x\<close>, ties to the even digit, read back as a double.
\<close>

definition round_half_even :: "real \<Rightarrow> int" where
  "round_half_even x =
     (let f = \<lfloor>x\<rfloor>; d = x - of_int f
      in if d < 1 / 2 then f else if 1 / 2 < d then f + 1 else if even f then f else f + 1)"

definition py_round2 :: "platform \<Rightarrow> real \<Rightarrow> real" where
  "py_round2 p x = fl_double p (of_int (round_half_even (x * 100)) / 100)"

record prediction_result =
  prediction :: string
  confidence :: real
  gdm_probability :: real
  factors :: "string list"
  model_version :: string

text \<open>
  The body of the \<open>try\<close> of \<open>predict\<close> (lines 198-233); \<open>Inl\<close> is \<open>str(e)\<close> of the exception
  that leaves it. When the probability vector has one entry, \<open>gdm_probability\<close> is the
  integer 0, which \<open>round\<close> returns as it is.
\<close>

definition predict_body :: "platform \<Rightarrow> GDMPredictor \<Rightarrow> classifier \<Rightarrow> pyval pydict \<Rightarrow> string + prediction_result" where
  "predict_body p self m patient_data =
     (case preprocess_input p self patient_data of
        Inl (ValueError msg) \<Rightarrow> Inl msg
      | Inr processed_data \<Rightarrow>
     (case model_predict m processed_data of
        Inl e \<Rightarrow> Inl e
      | Inr labels \<Rightarrow>
     (case first_item labels of
        Inl e \<Rightarrow> Inl e
      | Inr label \<Rightarrow>
     (case model_predict_proba m processed_data of
        Inl e \<Rightarrow> Inl e
      | Inr probas \<Rightarrow>
     (case first_item probas of
        Inl e \<Rightarrow> Inl e
      | Inr prediction_proba \<Rightarrow>
     (case py_max prediction_proba of
        Inl e \<Rightarrow> Inl e
      | Inr largest \<Rightarrow>
     (case sendFI m of
        Inl e \<Rightarrow> Inl e
      | Inr importance \<Rightarrow>
          Inr \<lparr>prediction = (if label = 1 then ''GDM Risk'' else ''No GDM Risk''),
               confidence = py_round2 p (fl_array p (largest * 100)),
               gdm_probability =
                 (if 1 < length prediction_proba
                  then py_round2 p (fl_array p (prediction_proba ! 1 * 100))
                  else 0),
               factors = take 5 (map fst importance),
               model_version = ''1.0''\<rparr>)))))))"

definition predict :: "platform \<Rightarrow> GDMPredictor \<Rightarrow> pyval pydict \<Rightarrow> error + prediction_result" where
  "predict p self patient_data =
     (case model self of
        None \<Rightarrow> Inl (ValueError ''Model is not loaded, maybe model.pkl does not exist in your dir'')
      | Some m \<Rightarrow>
          (case predict_body p self m patient_data of
             Inl e \<Rightarrow> Inl (ValueError (''Prediction failed: '' @ e))
           | Inr result \<Rightarrow> Inr result))"

section \<open>The data shaper (dataset-shaper.py)\<close>

subsection \<open>Files\<close>

text \<open>
  What the shaper sees of the file system: a path holds a workbook (its named sheets as
  pandas reads them), a CSV file that was written completely, the remains of a write
  that was interrupted, or something else. \<open>pd.read_excel\<close> raises on anything but a
  workbook that has the sheet.
\<close>

datatype stored = Workbook "(string \<times> frame) list" | Csv frame | Partial_Csv | Other_File

type_synonym filesystem = "string \<Rightarrow> stored option"

definition read_excel :: "filesystem \<Rightarrow> string \<Rightarrow> string \<Rightarrow> string + frame" where
  "read_excel fs file_path sheet_name =
     (case fs file_path of
        Some (Workbook sheets) \<Rightarrow>
          (case map_of sheets sheet_name of
             Some df \<Rightarrow> Inr df
           | None \<Rightarrow> Inl ''Worksheet not found'')
      | _ \<Rightarrow> Inl ''Excel file format cannot be determined'')"

text \<open>
  What the source leaves to the run: the order in which Python lists a set of strings
  (decided by their hashes, which change from run to run), and how a write to a path
  ends. \<open>to_csv\<close> opens the file and then writes the rows: it succeeds, or raises before
  the file is created (no such directory, no permission), or raises after the file was
  created or emptied (the device is full, a character cannot be encoded).
\<close>

datatype write_outcome = Written | Refused | Interrupted

record world =
  str_hash :: "string \<Rightarrow> nat"
  disk :: "string \<Rightarrow> frame \<Rightarrow> write_outcome"

subsection \<open>Column names\<close>

text \<open>\<open>str.strip()\<close>, for the whitespace of ASCII.\<close>

definition is_space :: "char \<Rightarrow> bool" where
  "is_space ch \<longleftrightarrow>
     ch \<in> set [CHR 0x09, CHR 0x0A, CHR 0x0B, CHR 0x0C, CHR 0x0D,
               CHR 0x1C, CHR 0x1D, CHR 0x1E, CHR 0x1F, CHR 0x20]"

definition strip :: "string \<Rightarrow> string" where
  "strip s = rev (dropWhile is_space (rev (dropWhile is_space s)))"

text \<open>Lines 41-42: \<open>df.columns = df.columns.astype(str).str.strip()\<close>.\<close>

definition strip_columns :: "frame \<Rightarrow> frame" where
  "strip_columns df = df\<lparr>cols := map (\<lambda>(k, vs). (strip k, vs)) (cols df)\<rparr>"

text \<open>
  Lines 45-46: the columns whose name matches the regular expression \<open>^Unnamed\<close>, that is,
  starts with \<open>Unnamed\<close>, are left out.
\<close>

definition drop_unnamed :: "frame \<Rightarrow> frame" where
  "drop_unnamed df =
     df\<lparr>cols := filter (\<lambda>(k, vs). take (length ''Unnamed'') k \<noteq> ''Unnamed'') (cols df)\<rparr>"

definition columns_to_remove :: "string list" where
  "columns_to_remove =
    [''socioeconomic status'',
     ''Mode of Delivery'',
     ''HbA1c Levels at Delivery:'',
     ''HbA1c Levels at Diagnosis (if using insulin):'',
     ''Gestational Age at Diagnosis of GDM (Months)'',
     ''Patients'']"

text \<open>\<open>df.drop(columns=[c])\<close>: every column of that name goes; \<open>KeyError\<close> when there is none.\<close>

definition drop_column :: "string \<Rightarrow> frame \<Rightarrow> string + frame" where
  "drop_column c df =
     (if c \<in> set (columns df)
      then Inr (df\<lparr>cols := filter (\<lambda>(k, vs). k \<noteq> c) (cols df)\<rparr>)
      else Inl ''KeyError: not found in axis'')"

text \<open>Lines 69-70 and 75-76: the loop over the matching names, which were listed before it.\<close>

fun drop_matches :: "string list \<Rightarrow> frame \<Rightarrow> string + frame" where
  "drop_matches [] df = Inr df"
| "drop_matches (match # rest) df =
     (case drop_column match df of
        Inl e \<Rightarrow> Inl e
      | Inr df' \<Rightarrow> drop_matches rest df')"

definition matching_cols :: "string \<Rightarrow> frame \<Rightarrow> string list" where
  "matching_cols col df = filter (\<lambda>c. strip c = strip col) (columns df)"

text \<open>Lines 66-77: the loop over \<open>columns_to_remove\<close>, on both frames.\<close>

fun remove_columns :: "string list \<Rightarrow> frame \<Rightarrow> frame \<Rightarrow> string + frame \<times> frame" where
  "remove_columns [] gdm_data ngdm_data = Inr (gdm_data, ngdm_data)"
| "remove_columns (col # rest) gdm_data ngdm_data =
     (case drop_matches (matching_cols col gdm_data) gdm_data of
        Inl e \<Rightarrow> Inl e
      | Inr gdm_data' \<Rightarrow>
          (case drop_matches (matching_cols col ngdm_data) ngdm_data of
             Inl e \<Rightarrow> Inl e
           | Inr ngdm_data' \<Rightarrow> remove_columns rest gdm_data' ngdm_data'))"

text \<open>
  Lines 89-91: \<open>list(set(a) & set(b))\<close>. The members are listed once each, in the order of
  their hashes.
\<close>

definition common_columns :: "(string \<Rightarrow> nat) \<Rightarrow> frame \<Rightarrow> frame \<Rightarrow> string list" where
  "common_columns h gdm_data ngdm_data =
     sort_key h (remdups (filter (\<lambda>c. c \<in> set (columns ngdm_data)) (columns gdm_data)))"

subsection \<open>Concatenation\<close>

text \<open>
  \<open>pd.concat([a, b], ignore_index=True)\<close>. Frames with the same column index are stacked
  column by column. Otherwise the columns are aligned by name, \<open>a\<close>'s first, and a frame
  that lacks a column holds \<open>nan\<close> there; this needs unique names, and pandas raises
  when a name repeats.
\<close>

definition column_or_nan :: "frame \<Rightarrow> string \<Rightarrow> pyval list" where
  "column_or_nan df c =
     (case get_column df c of Some vs \<Rightarrow> vs | None \<Rightarrow> replicate (nrows df) PyNaN)"

definition concat_frames :: "frame \<Rightarrow> frame \<Rightarrow> string + frame" where
  "concat_frames a b =
     (if columns a = columns b
      then Inr \<lparr>nrows = nrows a + nrows b,
                cols = map (\<lambda>((k, xs), (k', ys)). (k, xs @ ys)) (zip (cols a) (cols b))\<rparr>
      else if distinct (columns a) \<and> distinct (columns b)
      then Inr \<lparr>nrows = nrows a + nrows b,
                cols = map (\<lambda>c. (c, column_or_nan a c @ column_or_nan b c))
                         (columns a @ filter (\<lambda>c. c \<notin> set (columns a)) (columns b))\<rparr>
      else Inl ''Reindexing only valid with uniquely valued Index objects'')"

subsection \<open>process\_gdm\_data\<close>

text \<open>
  Lines 41-114: from the two sheets to the combined frame; \<open>Inl\<close> is an exception, which
  the \<open>except\<close> clause of the function catches.
\<close>

definition shape_sheets :: "(string \<Rightarrow> nat) \<Rightarrow> frame \<Rightarrow> frame \<Rightarrow> string + frame" where
  "shape_sheets h gdm_sheet ngdm_sheet =
     (let gdm_data = drop_unnamed (strip_columns gdm_sheet);
          ngdm_data = drop_unnamed (strip_columns ngdm_sheet)
      in case remove_columns columns_to_remove gdm_data ngdm_data of
           Inl e \<Rightarrow> Inl e
         | Inr (gdm_data, ngdm_data) \<Rightarrow>
             (let ngdm_data =
                    (if ''Type of treatment'' \<notin> set (columns ngdm_data)
                     then set_scalar ''Type of treatment'' (PyStr ''No Treatment'') ngdm_data
                     else ngdm_data);
                  common = common_columns h gdm_data ngdm_data
              in case select_columns common gdm_data of
                   Inl e \<Rightarrow> Inl e
                 | Inr gdm_common \<Rightarrow>
                     (case select_columns common ngdm_data of
                        Inl e \<Rightarrow> Inl e
                      | Inr ngdm_common \<Rightarrow>
                          concat_frames (set_scalar ''GDM'' (PyNum 0) ngdm_common)
                                        (set_scalar ''GDM'' (PyNum 1) gdm_common))))"

text \<open>\<open>df.to_csv(path, index=False)\<close>: the new file system, and whether the call raised.\<close>

definition to_csv :: "world \<Rightarrow> frame \<Rightarrow> string \<Rightarrow> filesystem \<Rightarrow> filesystem \<times> bool" where
  "to_csv w df path fs =
     (case disk w path df of
        Written \<Rightarrow> (fs(path \<mapsto> Csv df), False)
      | Refused \<Rightarrow> (fs, True)
      | Interrupted \<Rightarrow> (fs(path \<mapsto> Partial_Csv), True))"

text \<open>
  \<open>process_gdm_data\<close>: the value returned and the file system it leaves. The function
  has no \<open>finally\<close> clause and removes no file.
\<close>

definition process_gdm_data :: "world \<Rightarrow> filesystem \<Rightarrow> string \<Rightarrow> string \<Rightarrow> bool \<times> filesystem" where
  "process_gdm_data w fs file_path output_file =
     (if fs file_path = None then (False, fs)
      else
        (case read_excel fs file_path ''GDM'' of
           Inl e \<Rightarrow> (False, fs)
         | Inr gdm_sheet \<Rightarrow>
        (case read_excel fs file_path ''NGDM'' of
           Inl e \<Rightarrow> (False, fs)
         | Inr ngdm_sheet \<Rightarrow>
        (case shape_sheets (str_hash w) gdm_sheet ngdm_sheet of
           Inl e \<Rightarrow> (False, fs)
         | Inr combined_data \<Rightarrow>
        (case to_csv w combined_data output_file fs of
           (fs', raised) \<Rightarrow> if raised then (False, fs') else (True, fs'))))))"

section \<open>Notions used in the statements\<close>

text \<open>The values that cannot be hashed: JSON arrays and objects.\<close>

fun unhashable :: "pyval \<Rightarrow> bool" where
  "unhashable (PyList xs) = True"
| "unhashable (PyDict kvs) = True"
| "unhashable v = False"

text \<open>No categorical field of the request holds an array or an object.\<close>

definition hashable_categoricals :: "pyval pydict \<Rightarrow> bool" where
  "hashable_categoricals d =
     list_all (\<lambda>c. case dict_get d c of None \<Rightarrow> True | Some v \<Rightarrow> \<not> unhashable v)
       (map fst categorical_mappings)"

text \<open>
  The cell that the request leaves in column \<open>c\<close> before the scaling: 0 for an absent key,
  the coerced number for a numerical column, the code of the table for a categorical one.
\<close>

definition cell :: "platform \<Rightarrow> pyval pydict \<Rightarrow> string \<Rightarrow> pyval" where
  "cell p d c =
     (case dict_get d c of
        None \<Rightarrow> PyNum 0
      | Some v \<Rightarrow>
          if c \<in> set numerical_columns then fillna (PyNum 0) (to_numeric p v)
          else (case map_of categorical_mappings c of
                  None \<Rightarrow> v
                | Some t \<Rightarrow> (case series_map t v of Inl e \<Rightarrow> v | Inr w \<Rightarrow> fillna (PyNum 0) w)))"

text \<open>The frame after the loop over the numerical columns (lines 97-112).\<close>

definition coerced :: "platform \<Rightarrow> pyval pydict \<Rightarrow> frame" where
  "coerced p d =
     coerce_numerical p numerical_columns (DataFrame_of_row (rename_keys mapping d []))"

text \<open>
  A rounding to a float format, as far as the statements need it: it keeps the order and
  leaves 0 and 100, which every binary format holds exactly, as they are.
\<close>

definition rounding :: "(real \<Rightarrow> real) \<Rightarrow> bool" where
  "rounding fl \<longleftrightarrow> mono fl \<and> fl 0 = 0 \<and> fl 100 = 100"

section \<open>Example inputs\<close>

text \<open>
  A platform with exact arithmetic whose parser knows two decimal strings, a classifier
  with fixed answers, two scalers that subtract 1 from every number (one fitted on all
  14 features, one on the 11 numerical ones), and a few requests.
\<close>

definition exact_platform :: platform where
  "exact_platform =
     \<lparr>parse_number = map_of [(''7.5'', 15 / 2), (''120'', 120)],
      fl_array = (\<lambda>x. x),
      fl_double = (\<lambda>x. x)\<rparr>"

definition example_model :: classifier where
  "example_model =
     \<lparr>model_predict = (\<lambda>df. Inr [1]),
      model_predict_proba = (\<lambda>df. Inr [[3 / 10, 7 / 10]]),
      feature_importances = [30, 2, 5, 20, 1, 1, 0, 25, 9, 3, 4, 2, 2, 6]\<rparr>"

fun minus_one :: "pyval \<Rightarrow> pyval" where
  "minus_one (PyNum x) = PyNum (x - 1)"
| "minus_one v = v"

definition centre_row :: "frame \<Rightarrow> string + pyval list" where
  "centre_row df = Inr (map (\<lambda>(c, vs). minus_one (hd vs)) (cols df))"

definition full_scaler :: scaler where
  "full_scaler = \<lparr>feature_names_in = Some feature_columns, transform = centre_row\<rparr>"

definition numeric_scaler :: scaler where
  "numeric_scaler = \<lparr>feature_names_in = Some numerical_columns, transform = centre_row\<rparr>"

definition plain_service :: GDMPredictor where
  "plain_service = \<lparr>model = Some example_model, scaler = None\<rparr>"

definition full_request :: "pyval pydict" where
  "full_request =
    [(''nationality'', PyNum 1), (''height'', PyNum 160), (''ageYears'', PyNum 31),
     (''oneHourGlucose'', PyNum 180), (''bpSystolic'', PyNum 120), (''bmiBaseline'', PyNum 27),
     (''fastingBloodGlucose'', PyNum 95), (''weightKg'', PyNum 70), (''pulseHeartRate'', PyNum 80),
     (''hypertensiveDisorders'', PyNum 0), (''typeOfTreatment'', PyNum 0),
     (''twoHourGlucose'', PyNum 150), (''bpDiastolic'', PyNum 80),
     (''weightGainDuringPregnancy'', PyNum 9)]"

definition sparse_request :: "pyval pydict" where
  "sparse_request =
    [(''height'', PyNum 160), (''hypertensiveDisorders'', PyStr ''''),
     (''nationality'', PyStr ''Atlantis''), (''typeOfTreatment'', PyNum 1),
     (''bpSystolic'', PyStr ''high''), (''weightKg'', PyStr ''7.5'')]"

definition array_request :: "pyval pydict" where
  "array_request = [(''height'', PyNum 160), (''nationality'', PyList [PyStr ''UAE''])]"

definition object_request :: "pyval pydict" where
  "object_request = [(''height'', PyNum 160), (''typeOfTreatment'', PyDict [])]"

text \<open>
  A workbook with the two sheets (2 and 3 rows), a run that lists sets by the length of
  their members and whose writes succeed, and one whose device fills up while writing.
\<close>

definition gdm_example :: frame where
  "gdm_example =
     \<lparr>nrows = 2,
      cols = [(''Patients'', [PyStr ''P1'', PyStr ''P2'']),
              (''Age '', [PyNum 30, PyNum 35]),
              (''Type of treatment'', [PyStr ''Metformin'', PyStr ''yes'']),
              (''Unnamed: 3'', [PyNaN, PyNaN]),
              (''Mode of Delivery'', [PyStr ''CS'', PyStr ''NVD'']),
              (''BMI'', [PyNum 31, PyNum 29])]\<rparr>"

definition ngdm_example :: frame where
  "ngdm_example =
     \<lparr>nrows = 3,
      cols = [(''Patients'', [PyStr ''N1'', PyStr ''N2'', PyStr ''N3'']),
              ('' Age'', [PyNum 25, PyNum 28, PyNum 31]),
              (''BMI'', [PyNum 22, PyNum 24, PyNum 23]),
              (''Parity'', [PyNum 0, PyNum 1, PyNum 2])]\<rparr>"

definition example_files :: filesystem where
  "example_files =
     [''GDM_UOS.xlsx'' \<mapsto> Workbook [(''GDM'', gdm_example), (''NGDM'', ngdm_example)]]"

definition good_run :: world where
  "good_run = \<lparr>str_hash = length, disk = (\<lambda>path df. Written)\<rparr>"


section \<open>Lemmas on the prediction service\<close>

subsection \<open>Dictionaries and frames\<close>

lemma dict_set_fresh: "k \<notin> fst ` set d \<Longrightarrow> dict_set k v d = d @ [(k, v)]"
  by (induction d) auto

lemma rename_keys_fresh:
  "distinct (map snd m) \<Longrightarrow> set (map snd m) \<inter> fst ` set acc = {} \<Longrightarrow>
   rename_keys m d acc =
     acc @ List.map_filter (\<lambda>(fk, mk). map_option (Pair mk) (dict_get d fk)) m"
proof (induction m arbitrary: acc)
  case Nil
  then show ?case by simp
next
  case (Cons a m)
  obtain fk mk where a: "a = (fk, mk)" by (cases a)
  show ?case
  proof (cases "dict_get d fk")
    case None
    with Cons a show ?thesis by auto
  next
    case (Some v)
    have fresh: "mk \<notin> fst ` set acc" using Cons.prems a by auto
    have "set (map snd m) \<inter> fst ` set (acc @ [(mk, v)]) = {}"
      using Cons.prems a by auto
    with Cons a Some fresh show ?thesis
      by (simp add: dict_set_fresh)
  qed
qed

lemma map_filter_map: "List.map_filter f (map g xs) = List.map_filter (\<lambda>x. f (g x)) xs"
  by (induction xs) (simp_all split: option.split)

lemma mapping_keys: "mapping = map (\<lambda>c. (c, c)) feature_columns"
  by (simp add: mapping_def feature_columns_def)

lemma distinct_feature_columns: "distinct feature_columns"
  by (simp add: feature_columns_def)

lemma processed_data_eq:
  "rename_keys mapping d [] =
     List.map_filter (\<lambda>c. map_option (Pair c) (dict_get d c)) feature_columns"
proof -
  have "distinct (map snd mapping)"
    using distinct_feature_columns by (simp add: mapping_keys comp_def)
  then have "rename_keys mapping d [] =
      List.map_filter (\<lambda>(fk, mk). map_option (Pair mk) (dict_get d fk)) mapping"
    using rename_keys_fresh [of mapping "[]" d] by simp
  also have "\<dots> = List.map_filter (\<lambda>c. map_option (Pair c) (dict_get d c)) feature_columns"
    by (simp add: mapping_keys map_filter_map)
  finally show ?thesis .
qed



lemma columns_set_column:
  "columns (set_column c vs df) = (if c \<in> set (columns df) then columns df else columns df @ [c])"
  by (auto simp: set_column_def columns_def split_def intro: map_idI)

lemma nrows_set_column: "nrows (set_column c vs df) = nrows df"
  by (simp add: set_column_def)

lemma map_of_replace:
  "map_of (map (\<lambda>(k, old). if k = c then (k, vs) else (k, old)) xs) c' =
     (if c' = c then (if c \<in> fst ` set xs then Some vs else None) else map_of xs c')"
  by (induction xs) (force simp: image_iff)+

lemma get_column_set_column:
  "get_column (set_column c vs df) c' = (if c' = c then Some vs else get_column df c')"
proof (cases "c \<in> set (columns df)")
  case True
  then show ?thesis
    by (simp add: get_column_def set_column_def map_of_replace columns_def)
next
  case False
  then have "map_of (cols df) c = None"
    by (simp add: columns_def map_of_eq_None_iff)
  with False show ?thesis
    by (auto simp: get_column_def set_column_def map_add_def split: option.split)
qed

lemma get_column_None: "get_column df c = None \<longleftrightarrow> c \<notin> set (columns df)"
  by (simp add: get_column_def columns_def map_of_eq_None_iff)

lemma get_column_Some_mem: "get_column df c = Some vs \<Longrightarrow> c \<in> set (columns df)"
  using get_column_None [of df c] by auto

lemma columns_coerce_numerical: "columns (coerce_numerical p cs df) = columns df"
  by (induction cs arbitrary: df)
     (auto simp: columns_set_column get_column_None split: option.split)

lemma nrows_coerce_numerical: "nrows (coerce_numerical p cs df) = nrows df"
  by (induction cs arbitrary: df) (auto simp: nrows_set_column split: option.split)

lemma get_column_coerce_numerical:
  "distinct cs \<Longrightarrow>
   get_column (coerce_numerical p cs df) c =
     (if c \<in> set cs then map_option (map (fillna (PyNum 0) \<circ> to_numeric p)) (get_column df c)
      else get_column df c)"
proof (induction cs arbitrary: df)
  case Nil
  then show ?case by simp
next
  case (Cons a cs)
  then show ?case
    by (cases "get_column df a") (auto simp: get_column_set_column comp_def)
qed

lemma series_map_Inl: "(\<exists>e. series_map t v = Inl e) \<longleftrightarrow> unhashable v"
  by (cases v) auto

lemma map_cells_Inr_iff:
  "(\<exists>ys. map_cells f xs = Inr ys) \<longleftrightarrow> (\<forall>x \<in> set xs. \<exists>y. f x = Inr y)"
  by (induction xs) (auto split: sum.splits)

lemma map_cells_single:
  "map_cells f [x] = (case f x of Inl e \<Rightarrow> Inl e | Inr y \<Rightarrow> Inr [y])"
  by (simp split: sum.split)

lemma apply_categorical_Inr:
  assumes "apply_categorical ts df = Inr df'" and "distinct (map fst ts)"
  shows "columns df' = columns df \<and> nrows df' = nrows df \<and>
         (\<forall>c. get_column df' c =
            (case map_of ts c of
               None \<Rightarrow> get_column df c
             | Some t \<Rightarrow>
                 (case get_column df c of
                    None \<Rightarrow> None
                  | Some vs \<Rightarrow>
                      (case map_cells (series_map t) vs of
                         Inr ws \<Rightarrow> Some (map (fillna (PyNum 0)) ws)
                       | Inl e \<Rightarrow> None))))"
  using assms
proof (induction ts arbitrary: df)
  case Nil
  then show ?case by simp
next
  case (Cons a ts)
  obtain col t where a: "a = (col, t)" by (cases a)
  have fresh: "map_of ts col = None"
    using Cons.prems(2) a by (simp add: map_of_eq_None_iff)
  show ?case
  proof (cases "get_column df col")
    case None
    with Cons.prems a have "apply_categorical ts df = Inr df'" by simp
    from Cons.IH [OF this] Cons.prems(2) None a show ?thesis
      by (auto split: option.splits)
  next
    case (Some vs)
    with Cons.prems a obtain ws where
      ws: "map_cells (series_map t) vs = Inr ws" and
      rest: "apply_categorical ts (set_column col (map (fillna (PyNum 0)) ws) df) = Inr df'"
      by (auto split: sum.splits)
    have mem: "col \<in> set (columns df)" using Some by (rule get_column_Some_mem)
    from Cons.IH [OF rest] Cons.prems(2)
    have ih: "columns df' = columns (set_column col (map (fillna (PyNum 0)) ws) df)"
      "nrows df' = nrows df"
      "\<And>c. get_column df' c =
         (case map_of ts c of
            None \<Rightarrow> get_column (set_column col (map (fillna (PyNum 0)) ws) df) c
          | Some t \<Rightarrow>
              (case get_column (set_column col (map (fillna (PyNum 0)) ws) df) c of
                 None \<Rightarrow> None
               | Some vs \<Rightarrow>
                   (case map_cells (series_map t) vs of
                      Inr ws \<Rightarrow> Some (map (fillna (PyNum 0)) ws)
                    | Inl e \<Rightarrow> None)))"
      by (simp_all add: nrows_set_column)
    have "columns df' = columns df" using ih(1) mem by (simp add: columns_set_column)
    moreover have "get_column df' c =
            (case map_of (a # ts) c of
               None \<Rightarrow> get_column df c
             | Some t \<Rightarrow>
                 (case get_column df c of
                    None \<Rightarrow> None
                  | Some vs \<Rightarrow>
                      (case map_cells (series_map t) vs of
                         Inr ws \<Rightarrow> Some (map (fillna (PyNum 0)) ws)
                       | Inl e \<Rightarrow> None)))" for c
    proof (cases "c = col")
      case True
      then show ?thesis using ih(3) [of c] fresh a Some ws
        by (simp add: get_column_set_column)
    next
      case False
      then show ?thesis using ih(3) [of c] a
        by (simp add: get_column_set_column split: option.split)
    qed
    ultimately show ?thesis using ih(2) by blast
  qed
qed

lemma apply_categorical_succeeds:
  assumes "distinct (map fst ts)"
    and "\<And>c t vs. (c, t) \<in> set ts \<Longrightarrow> get_column df c = Some vs \<Longrightarrow>
           \<exists>ws. map_cells (series_map t) vs = Inr ws"
  shows "\<exists>df'. apply_categorical ts df = Inr df'"
  using assms
proof (induction ts arbitrary: df)
  case Nil
  then show ?case by simp
next
  case (Cons a ts)
  obtain col t where a: "a = (col, t)" by (cases a)
  have d: "distinct (map fst ts)" and nin: "col \<notin> fst ` set ts"
    using Cons.prems(1) a by auto
  show ?case
  proof (cases "get_column df col")
    case None
    have "\<exists>df'. apply_categorical ts df = Inr df'"
      by (rule Cons.IH [OF d]) (use Cons.prems(2) in auto)
    with None a show ?thesis by simp
  next
    case (Some vs)
    then obtain ws where ws: "map_cells (series_map t) vs = Inr ws"
      using Cons.prems(2) [of col t vs] a by auto
    have "\<exists>df'. apply_categorical ts (set_column col (map (fillna (PyNum 0)) ws) df) = Inr df'"
    proof (rule Cons.IH [OF d])
      fix c t' vs'
      assume m: "(c, t') \<in> set ts"
        and g: "get_column (set_column col (map (fillna (PyNum 0)) ws) df) c = Some vs'"
      from m nin have "c \<noteq> col" by force
      with g have "get_column df c = Some vs'" by (simp add: get_column_set_column)
      with m show "\<exists>ws. map_cells (series_map t') vs' = Inr ws"
        using Cons.prems(2) [of c t' vs'] by auto
    qed
    with Some ws a show ?thesis by simp
  qed
qed

lemma apply_categorical_fails:
  assumes "distinct (map fst ts)"
    and "(c, t) \<in> set ts" and "get_column df c = Some vs"
    and "map_cells (series_map t) vs = Inl e"
  shows "\<exists>e'. apply_categorical ts df = Inl e'"
proof (cases "apply_categorical ts df")
  case (Inl e')
  then show ?thesis by blast
next
  case (Inr df')
  have "map_of ts c = Some t" using assms(1,2) by simp
  with apply_categorical_Inr [OF Inr assms(1)] assms(3,4)
  have "get_column df' c = None" by simp
  moreover have "c \<in> set (columns df')"
    using apply_categorical_Inr [OF Inr assms(1)] get_column_Some_mem [OF assms(3)] by simp
  ultimately show ?thesis by (simp add: get_column_None)
qed

lemma nrows_add_missing: "nrows (add_missing names df) = nrows df"
  by (induction names arbitrary: df) (simp_all add: set_scalar_def nrows_set_column)

lemma set_columns_add_missing:
  "set (columns (add_missing names df)) = set (columns df) \<union> set names"
  by (induction names arbitrary: df) (auto simp: set_scalar_def columns_set_column)

lemma distinct_add_missing:
  "distinct (columns df) \<Longrightarrow> distinct (columns (add_missing names df))"
  by (induction names arbitrary: df) (simp_all add: set_scalar_def columns_set_column)

lemma get_column_add_missing:
  "get_column (add_missing names df) c =
     (case get_column df c of
        Some vs \<Rightarrow> Some vs
      | None \<Rightarrow> if c \<in> set names then Some (replicate (nrows df) (PyNum 0)) else None)"
proof (induction names arbitrary: df)
  case Nil
  then show ?case by (simp split: option.split)
next
  case (Cons a names)
  show ?case
  proof (cases "a \<in> set (columns df)")
    case True
    then have "a = c \<Longrightarrow> get_column df c \<noteq> None" by (simp add: get_column_None)
    with True Cons show ?thesis by (auto split: option.split)
  next
    case False
    then have "get_column df a = None" by (simp add: get_column_None)
    with False Cons show ?thesis
      by (auto simp: set_scalar_def get_column_set_column nrows_set_column split: option.split)
  qed
qed

lemma filter_key_distinct:
  "distinct (map fst xs) \<Longrightarrow> c \<in> fst ` set xs \<Longrightarrow>
   filter (\<lambda>(k, vs). k = c) xs = [(c, the (map_of xs c))]"
proof (induction xs)
  case Nil
  then show ?case by simp
next
  case (Cons a xs)
  obtain k v where a: "a = (k, v)" by (cases a)
  show ?case
  proof (cases "k = c")
    case True
    then have "c \<notin> fst ` set xs" using Cons.prems(1) a by simp
    then have "filter (\<lambda>(k, vs). k = c) xs = []"
      by (force simp: filter_empty_conv)
    with True a show ?thesis by simp
  next
    case False
    with Cons a show ?thesis by auto
  qed
qed

lemma select_columns_distinct:
  assumes "distinct (columns df)" and "set names \<subseteq> set (columns df)"
  shows "select_columns names df =
           Inr (df\<lparr>cols := map (\<lambda>c. (c, the (get_column df c))) names\<rparr>)"
proof -
  have "concat (map (\<lambda>c. filter (\<lambda>(k, vs). k = c) (cols df)) names) =
        map (\<lambda>c. (c, the (get_column df c))) names"
    using assms(2)
  proof (induction names)
    case Nil
    then show ?case by simp
  next
    case (Cons a names)
    then have "a \<in> fst ` set (cols df)" by (simp add: columns_def)
    with assms(1) have "filter (\<lambda>(k, vs). k = a) (cols df) = [(a, the (map_of (cols df) a))]"
      by (simp add: filter_key_distinct columns_def)
    with Cons show ?case by (simp add: get_column_def)
  qed
  with assms(2) show ?thesis by (auto simp: select_columns_def)
qed

lemma map_of_map_filter_keys:
  "map_of (List.map_filter (\<lambda>c. map_option (Pair c) (g c)) xs) c =
     (if c \<in> set xs then g c else None)"
  by (induction xs) (auto split: option.split)

lemma keys_map_filter:
  "map fst (List.map_filter (\<lambda>c. map_option (Pair c) (g c)) xs) = filter (\<lambda>c. g c \<noteq> None) xs"
  by (induction xs) (auto split: option.split)

lemma columns_DataFrame_of_row: "columns (DataFrame_of_row d) = map fst d"
  by (simp add: DataFrame_of_row_def columns_def split_def)

lemma get_column_DataFrame_of_row:
  "get_column (DataFrame_of_row d) c = map_option (\<lambda>v. [v]) (map_of d c)"
  by (induction d) (auto simp: DataFrame_of_row_def get_column_def)

lemma distinct_numerical_columns: "distinct numerical_columns"
  by (simp add: numerical_columns_def)

lemma distinct_categorical: "distinct (map fst categorical_mappings)"
  by (simp add: categorical_mappings_def)

lemma categorical_not_numerical:
  "map_of categorical_mappings c = Some t \<Longrightarrow> c \<notin> set numerical_columns"
  by (auto simp: categorical_mappings_def numerical_columns_def split: if_splits)

lemma feature_kinds:
  "c \<in> set feature_columns \<Longrightarrow> c \<in> set numerical_columns \<or> map_of categorical_mappings c \<noteq> None"
  by (auto simp: feature_columns_def numerical_columns_def categorical_mappings_def)

lemma frame_eqI: "nrows (df :: frame) = n \<Longrightarrow> cols df = cs \<Longrightarrow> df = \<lparr>nrows = n, cols = cs\<rparr>"
  by (cases df) simp

lemma coerced_columns:
  "columns (coerced p d) = filter (\<lambda>c. dict_get d c \<noteq> None) feature_columns"
  by (simp add: coerced_def columns_coerce_numerical columns_DataFrame_of_row
      processed_data_eq keys_map_filter)

lemma coerced_nrows: "nrows (coerced p d) = 1"
  by (simp add: coerced_def nrows_coerce_numerical DataFrame_of_row_def)

lemma coerced_get:
  "get_column (coerced p d) c =
     (if c \<in> set feature_columns
      then map_option (\<lambda>v. [if c \<in> set numerical_columns
                              then fillna (PyNum 0) (to_numeric p v) else v]) (dict_get d c)
      else None)"
  by (cases "dict_get d c")
     (simp_all add: coerced_def get_column_coerce_numerical distinct_numerical_columns
        get_column_DataFrame_of_row processed_data_eq map_of_map_filter_keys)

lemma categorical_features:
  "(c, t) \<in> set categorical_mappings \<Longrightarrow> c \<in> set feature_columns \<and> c \<notin> set numerical_columns"
  by (auto simp: categorical_mappings_def feature_columns_def numerical_columns_def)

lemma hashable_categoricalsD:
  "hashable_categoricals d \<Longrightarrow> (c, t) \<in> set categorical_mappings \<Longrightarrow>
   dict_get d c = Some v \<Longrightarrow> \<not> unhashable v"
  by (force simp: hashable_categoricals_def list_all_iff)

lemma series_map_hashable: "\<not> unhashable v \<Longrightarrow> \<exists>w. series_map t v = Inr w"
  using series_map_Inl [of t v] by (cases "series_map t v") auto

lemma align_features_hashable:
  assumes h: "hashable_categoricals d"
  shows "align_features p d =
           Inr \<lparr>nrows = 1, cols = map (\<lambda>c. (c, [cell p d c])) feature_columns\<rparr>"
proof -
  let ?df1 = "coerced p d"
  have "\<exists>df2. apply_categorical categorical_mappings ?df1 = Inr df2"
  proof (rule apply_categorical_succeeds [OF distinct_categorical])
    fix c t vs
    assume m: "(c, t) \<in> set categorical_mappings" and g: "get_column ?df1 c = Some vs"
    from m have cf: "c \<in> set feature_columns" "c \<notin> set numerical_columns"
      using categorical_features by auto
    with g obtain v where v: "dict_get d c = Some v" "vs = [v]"
      by (auto simp: coerced_get)
    from hashable_categoricalsD [OF h m v(1)] obtain w where "series_map t v = Inr w"
      using series_map_hashable by blast
    with v show "\<exists>ws. map_cells (series_map t) vs = Inr ws" by simp
  qed
  then obtain df2 where df2: "apply_categorical categorical_mappings ?df1 = Inr df2" ..
  note f2 = apply_categorical_Inr [OF df2 distinct_categorical]
  let ?df3 = "add_missing feature_columns df2"
  have d3: "distinct (columns ?df3)"
    by (rule distinct_add_missing) (simp add: f2 coerced_columns distinct_feature_columns)
  have s3: "set feature_columns \<subseteq> set (columns ?df3)"
    by (simp add: set_columns_add_missing)
  have n3: "nrows ?df3 = 1" by (simp add: nrows_add_missing f2 coerced_nrows)
  have cellc: "the (get_column ?df3 c) = [cell p d c]" if c: "c \<in> set feature_columns" for c
  proof (cases "dict_get d c")
    case None
    then have "get_column df2 c = None"
      using f2 c by (simp add: coerced_get split: option.split)
    with None c show ?thesis
      by (simp add: get_column_add_missing cell_def f2 coerced_nrows)
  next
    case (Some v)
    show ?thesis
    proof (cases "c \<in> set numerical_columns")
      case True
      then have "map_of categorical_mappings c = None"
        using categorical_not_numerical [of c] by (cases "map_of categorical_mappings c") auto
      with True Some c show ?thesis
        using f2 by (simp add: get_column_add_missing cell_def coerced_get)
    next
      case False
      with feature_kinds [OF c] obtain t where t: "map_of categorical_mappings c = Some t"
        by auto
      then have m: "(c, t) \<in> set categorical_mappings" by (rule map_of_SomeD)
      from hashable_categoricalsD [OF h m Some] obtain w where w: "series_map t v = Inr w"
        using series_map_hashable by blast
      with False Some c t show ?thesis
        using f2 by (simp add: get_column_add_missing cell_def coerced_get)
    qed
  qed
  have "select_columns feature_columns ?df3 =
          Inr (?df3\<lparr>cols := map (\<lambda>c. (c, the (get_column ?df3 c))) feature_columns\<rparr>)"
    by (rule select_columns_distinct [OF d3 s3])
  also have "map (\<lambda>c. (c, the (get_column ?df3 c))) feature_columns =
             map (\<lambda>c. (c, [cell p d c])) feature_columns"
    using cellc by simp
  also have "?df3\<lparr>cols := map (\<lambda>c. (c, [cell p d c])) feature_columns\<rparr> =
             \<lparr>nrows = 1, cols = map (\<lambda>c. (c, [cell p d c])) feature_columns\<rparr>"
    by (rule frame_eqI) (simp_all add: n3)
  finally show ?thesis
    using df2 by (simp add: align_features_def coerced_def)
qed

lemma align_features_unhashable:
  assumes h: "\<not> hashable_categoricals d"
  shows "\<exists>e. align_features p d = Inl e"
proof -
  from h obtain c v where c: "c \<in> set (map fst categorical_mappings)"
    and v: "dict_get d c = Some v" "unhashable v"
    by (auto simp: hashable_categoricals_def list_all_iff split: option.splits)
  from c obtain t where m: "(c, t) \<in> set categorical_mappings" by auto
  from m have cf: "c \<in> set feature_columns" "c \<notin> set numerical_columns"
    using categorical_features by auto
  then have g: "get_column (coerced p d) c = Some [v]"
    using v by (simp add: coerced_get)
  from v(2) obtain e where "series_map t v = Inl e"
    using series_map_Inl [of t v] by auto
  then have "map_cells (series_map t) [v] = Inl e" by simp
  from apply_categorical_fails [OF distinct_categorical m g this]
  show ?thesis by (auto simp: align_features_def coerced_def)
qed

subsection \<open>The scaling step\<close>

lemma rename_keys_cong:
  "dict_get d1 = dict_get d2 \<Longrightarrow> rename_keys m d1 acc = rename_keys m d2 acc"
  by (induction m d1 acc rule: rename_keys.induct) (simp_all split: option.split)

lemma align_features_cong:
  "dict_get d1 = dict_get d2 \<Longrightarrow> align_features p d1 = align_features p d2"
  by (simp add: align_features_def rename_keys_cong [of d1 d2])

lemma dict_get_permuted:
  "distinct (map fst d1) \<Longrightarrow> distinct (map fst d2) \<Longrightarrow> set d1 = set d2 \<Longrightarrow>
   dict_get d1 = dict_get d2"
  unfolding dict_get_def by (rule map_of_inject_set [THEN iffD2])

lemma columns_fold_set_column:
  "fst ` set cvs \<subseteq> set (columns df) \<Longrightarrow>
   columns (fold (\<lambda>(c, v). set_column c [v]) cvs df) = columns df"
  by (induction cvs arbitrary: df) (auto simp: columns_set_column)

lemma nrows_fold_set_column:
  "nrows (fold (\<lambda>(c, v). set_column c [v]) cvs df) = nrows df"
  by (induction cvs arbitrary: df) (auto simp: nrows_set_column)

lemma numerical_subset: "set numerical_columns \<subseteq> set feature_columns"
  by (simp add: numerical_columns_def feature_columns_def)

lemma length_feature_columns: "length feature_columns = 14"
  by (simp add: feature_columns_def)

lemma apply_scaler_shape:
  assumes "columns df = feature_columns" and "nrows df = 1"
  shows "columns (apply_scaler self df) = feature_columns \<and> nrows (apply_scaler self df) = 1"
proof (cases "scaler self")
  case None
  with assms show ?thesis by (simp add: apply_scaler_def)
next
  case (Some sc)
  have sub: "fst ` set (zip numerical_columns row) \<subseteq> set (columns df)" for row :: "pyval list"
    using numerical_subset assms(1) by (auto dest: set_zip_leftD)
  show ?thesis
    using Some assms
    by (auto simp: apply_scaler_def DataFrame_of_array_def set_columns_array_def columns_def
        columns_fold_set_column [OF sub, unfolded columns_def] nrows_fold_set_column
        split: option.split sum.split)
qed

lemma aligned_shape:
  assumes "align_features p d = Inr df"
  shows "columns df = feature_columns \<and> nrows df = 1 \<and>
         (\<forall>c \<in> set feature_columns. get_column df c = Some [cell p d c])"
proof -
  have h: "hashable_categoricals d"
    using assms align_features_unhashable [of d p] by auto
  from align_features_hashable [OF h, of p] assms
  have df: "df = \<lparr>nrows = 1, cols = map (\<lambda>c. (c, [cell p d c])) feature_columns\<rparr>" by simp
  have "map_of (map (\<lambda>c. (c, [cell p d c])) feature_columns) c = Some [cell p d c]"
    if "c \<in> set feature_columns" for c
    using that by (simp add: map_of_map_restrict)
  then show ?thesis by (simp add: df columns_def comp_def get_column_def)
qed

lemma hashable_numeric:
  assumes "\<forall>c \<in> set feature_columns. \<exists>x. dict_get d c = Some (PyNum x)"
  shows "hashable_categoricals d"
proof -
  have "c \<in> set feature_columns" if "c \<in> set (map fst categorical_mappings)" for c
    using that categorical_features by auto
  with assms show ?thesis
    by (fastforce simp: hashable_categoricals_def list_all_iff)
qed

lemma preprocess_input_aligned:
  "align_features p d = Inr df \<Longrightarrow> preprocess_input p self d = Inr (apply_scaler self df)"
  by (simp add: preprocess_input_def)

lemma preprocess_input_cong:
  "dict_get d1 = dict_get d2 \<Longrightarrow> preprocess_input p self d1 = preprocess_input p self d2"
  by (simp add: preprocess_input_def align_features_cong [of d1 d2])

lemma apply_scaler_None: "scaler self = None \<Longrightarrow> apply_scaler self df = df"
  by (simp add: apply_scaler_def)

lemma aligned_cell:
  assumes "hashable_categoricals d" and "c \<in> set feature_columns"
  shows "\<exists>df. align_features p d = Inr df \<and> get_column df c = Some [cell p d c] \<and>
              (scaler self = None \<longrightarrow> preprocess_input p self d = Inr df)"
proof -
  from align_features_hashable [OF assms(1), of p] obtain df where
    df: "align_features p d = Inr df" by blast
  from aligned_shape [OF df] assms(2) have "get_column df c = Some [cell p d c]" by blast
  with df show ?thesis
    by (auto simp: preprocess_input_aligned apply_scaler_None)
qed

lemma preprocess_input_raises:
  "\<not> hashable_categoricals d \<Longrightarrow> \<exists>msg. preprocess_input p self d = Inl (ValueError msg)"
  using align_features_unhashable [of d p] by (auto simp: preprocess_input_def)

lemma unhashable_not_hashable:
  assumes "(c, table) \<in> set categorical_mappings" "dict_get d c = Some v" "unhashable v"
  shows "\<not> hashable_categoricals d"
  using assms hashable_categoricalsD by blast

lemma categorical_table:
  "(c, table) \<in> set categorical_mappings \<Longrightarrow> map_of categorical_mappings c = Some table"
  using distinct_categorical by simp

lemma cell_categorical:
  assumes "(c, table) \<in> set categorical_mappings" and "dict_get d c = Some v"
    and "series_map table v = Inr w"
  shows "cell p d c = fillna (PyNum 0) w"
  using assms categorical_features [OF assms(1)] categorical_table [OF assms(1)]
  by (simp add: cell_def)

lemma dict_get_dict_set:
  "dict_get (dict_set k v d) k' = (if k' = k then Some v else dict_get d k')"
  by (induction d) (auto simp: dict_get_def)

lemma hypertension_table:
  "(''hypertensiveDisorders'', table) \<in> set categorical_mappings \<Longrightarrow>
   map_of table ''No'' = Some 0"
  by (auto simp: categorical_mappings_def)

lemma align_features_eq_cells:
  assumes "hashable_categoricals d1" "hashable_categoricals d2"
    and "\<And>c. c \<in> set feature_columns \<Longrightarrow> cell p d1 c = cell p d2 c"
  shows "align_features p d1 = align_features p d2"
  using assms by (simp add: align_features_hashable)

lemma hashable_dict_set:
  assumes "hashable_categoricals d" and "\<not> unhashable v"
  shows "hashable_categoricals (dict_set k v d)"
  using assms
  by (auto simp: hashable_categoricals_def list_all_iff dict_get_dict_set split: option.splits)

lemma get_column_fold_set_column:
  "distinct (map fst cvs) \<Longrightarrow>
   get_column (fold (\<lambda>(c, v). set_column c [v]) cvs df) c' =
     (case map_of cvs c' of Some v \<Rightarrow> Some [v] | None \<Rightarrow> get_column df c')"
proof (induction cvs arbitrary: df)
  case Nil
  then show ?case by simp
next
  case (Cons a cvs)
  obtain c v where a: "a = (c, v)" by (cases a)
  from Cons.prems a have "map_of cvs c = None"
    by (simp add: map_of_eq_None_iff)
  with Cons a show ?case
    by (auto simp: get_column_set_column split: option.split)
qed

lemma select_numerical:
  assumes "columns df = feature_columns"
  shows "\<exists>numeric. select_columns numerical_columns df = Inr numeric \<and>
           columns numeric = numerical_columns \<and> nrows numeric = nrows df \<and>
           (\<forall>c \<in> set numerical_columns. get_column numeric c = get_column df c)"
proof -
  have d: "distinct (columns df)" and s: "set numerical_columns \<subseteq> set (columns df)"
    using assms distinct_feature_columns numerical_subset by simp_all
  have "get_column (df\<lparr>cols := map (\<lambda>c. (c, the (get_column df c))) numerical_columns\<rparr>) c =
        get_column df c" if "c \<in> set numerical_columns" for c
  proof -
    from that s have "c \<in> set (columns df)" by blast
    then obtain vs where "get_column df c = Some vs"
      using get_column_None [of df c] by (cases "get_column df c") auto
    with that show ?thesis by (simp add: get_column_def map_of_map_restrict)
  qed
  then show ?thesis
    by (simp add: select_columns_distinct [OF d s] columns_def comp_def)
qed

subsection \<open>The example requests\<close>

lemma align_features_coerced:
  "align_features p d =
     (case apply_categorical categorical_mappings (coerced p d) of
        Inl e \<Rightarrow> Inl e
      | Inr df \<Rightarrow> select_columns feature_columns (add_missing feature_columns df))"
  by (simp add: align_features_def coerced_def)

lemma zip_map_same: "zip xs (map f xs) = map (\<lambda>x. (x, f x)) xs"
  by (induction xs) simp_all

lemma full_scaler_result:
  assumes "hashable_categoricals d"
  shows "preprocess_input p \<lparr>model = m, scaler = Some full_scaler\<rparr> d =
           Inr \<lparr>nrows = 1, cols = map (\<lambda>c. (c, [minus_one (cell p d c)])) feature_columns\<rparr>"
  using align_features_hashable [OF assms, of p]
  by (simp add: preprocess_input_def apply_scaler_def full_scaler_def centre_row_def
      DataFrame_of_array_def columns_def comp_def zip_map_same)

lemma array_request_raises:
  "align_features p array_request = Inl (''unhashable type: '' @ quoted ''list'')"
proof -
  have "get_column (coerced p array_request) ''hypertensiveDisorders'' = None"
    "get_column (coerced p array_request) ''typeOfTreatment'' = None"
    "get_column (coerced p array_request) ''nationality'' = Some [PyList [PyStr ''UAE'']]"
    by (simp_all add: coerced_get feature_columns_def numerical_columns_def dict_get_def
        array_request_def)
  then show ?thesis
    by (simp add: align_features_coerced categorical_mappings_def)
qed

lemma object_request_raises:
  "align_features p object_request = Inl (''unhashable type: '' @ quoted ''dict'')"
proof -
  have "get_column (coerced p object_request) ''hypertensiveDisorders'' = None"
    "get_column (coerced p object_request) ''typeOfTreatment'' = Some [PyDict []]"
    by (simp_all add: coerced_get feature_columns_def numerical_columns_def dict_get_def
        object_request_def)
  then show ?thesis
    by (simp add: align_features_coerced categorical_mappings_def)
qed

subsection \<open>predict\<close>

lemma predict_Inr:
  assumes "predict p self d = Inr r"
  shows "\<exists>m processed labels label probas proba largest importance.
           model self = Some m \<and>
           preprocess_input p self d = Inr processed \<and>
           model_predict m processed = Inr labels \<and> first_item labels = Inr label \<and>
           model_predict_proba m processed = Inr probas \<and> first_item probas = Inr proba \<and>
           py_max proba = Inr largest \<and> sendFI m = Inr importance \<and>
           r = \<lparr>prediction = (if label = 1 then ''GDM Risk'' else ''No GDM Risk''),
                confidence = py_round2 p (fl_array p (largest * 100)),
                gdm_probability =
                  (if 1 < length proba then py_round2 p (fl_array p (proba ! 1 * 100)) else 0),
                factors = take 5 (map fst importance),
                model_version = ''1.0''\<rparr>"
  using assms
  by (auto simp: predict_def predict_body_def split: option.splits sum.splits error.splits
      split del: if_split)

lemma predict_example:
  assumes "hashable_categoricals d"
  shows "predict exact_platform plain_service d =
           Inr \<lparr>prediction = ''GDM Risk'', confidence = 70, gdm_probability = 70,
                factors = [''oneHourGlucose'', ''typeOfTreatment'', ''fastingBloodGlucose'',
                           ''twoHourGlucose'', ''weightGainDuringPregnancy''],
                model_version = ''1.0''\<rparr>"
proof -
  from align_features_hashable [OF assms, of exact_platform] obtain df where
    "preprocess_input exact_platform plain_service d = Inr df"
    by (auto simp: preprocess_input_def)
  moreover have "sendFI example_model =
      Inr [(''oneHourGlucose'', 30), (''typeOfTreatment'', 25), (''fastingBloodGlucose'', 20),
           (''twoHourGlucose'', 9), (''weightGainDuringPregnancy'', 6), (''bmiBaseline'', 5),
           (''ageYears'', 4), (''nationality'', 3), (''bpSystolic'', 2), (''bpDiastolic'', 2),
           (''height'', 2), (''weightKg'', 1), (''pulseHeartRate'', 1),
           (''hypertensiveDisorders'', 0)]"
    by (simp add: sendFI_def example_model_def feature_columns_def)
  moreover have "py_round2 exact_platform (fl_array exact_platform (7 / 10 * 100)) = 70"
    by (simp add: py_round2_def round_half_even_def exact_platform_def)
  ultimately show ?thesis
    by (simp add: predict_def predict_body_def plain_service_def)
       (simp add: example_model_def)
qed

lemma round_half_even_bounds:
  assumes "of_int a \<le> y" and "y \<le> of_int b"
  shows "a \<le> round_half_even y \<and> round_half_even y \<le> b"
proof -
  have lo: "a \<le> \<lfloor>y\<rfloor>" using assms(1) by (simp add: le_floor_iff)
  have hi: "\<lfloor>y\<rfloor> \<le> b" using assms(2) by (simp add: floor_le_iff)
  show ?thesis
  proof (cases "y = of_int b")
    case True
    with lo hi show ?thesis by (simp add: round_half_even_def)
  next
    case False
    with assms(2) have "y < of_int b" by simp
    then have "\<lfloor>y\<rfloor> < b" by (simp add: floor_less_iff)
    with lo show ?thesis by (auto simp: round_half_even_def Let_def)
  qed
qed

lemma rounding_bounds:
  assumes "rounding fl" and "0 \<le> x" and "x \<le> 100"
  shows "0 \<le> fl x \<and> fl x \<le> 100"
  using assms monoD [of fl 0 x] monoD [of fl x 100] by (simp add: rounding_def)

lemma percentage_bounds:
  assumes "rounding (fl_array p)" and "rounding (fl_double p)" and "0 \<le> x" and "x \<le> 1"
  shows "0 \<le> py_round2 p (fl_array p (x * 100)) \<and> py_round2 p (fl_array p (x * 100)) \<le> 100"
proof -
  let ?y = "fl_array p (x * 100)"
  have y: "0 \<le> ?y \<and> ?y \<le> 100"
    using assms(3,4) by (intro rounding_bounds [OF assms(1)]) simp_all
  then have "of_int 0 \<le> ?y * 100" "?y * 100 \<le> of_int 10000" by simp_all
  from round_half_even_bounds [OF this]
  have "0 \<le> real_of_int (round_half_even (?y * 100)) / 100"
    "real_of_int (round_half_even (?y * 100)) / 100 \<le> 100"
    by simp_all
  then show ?thesis
    unfolding py_round2_def by (intro rounding_bounds [OF assms(2)])
qed

lemma py_max_mem: "py_max xs = Inr largest \<Longrightarrow> largest = Max (set xs) \<and> largest \<in> set xs"
proof (cases xs)
  case Nil
  then show "py_max xs = Inr largest \<Longrightarrow> ?thesis" by simp
next
  case (Cons x ys)
  assume "py_max xs = Inr largest"
  with Cons have "largest = Max (set xs)" using Max.set_eq_fold [of x ys] by simp
  moreover have "Max (set xs) \<in> set xs" using Cons by (intro Max_in) simp_all
  ultimately show ?thesis by simp
qed

section \<open>Properties of the prediction service\<close>

text \<open>
  C5. When no model is loaded, \<open>predict\<close> raises the "not loaded" \<open>ValueError\<close> for every
  patient-data object, whatever the scaler and the platform are: the test is the first
  statement, nothing is preprocessed or inferred, and no prediction result is returned.
\<close>

theorem predict_model_not_loaded:
  "predict p \<lparr>model = None, scaler = sc\<rparr> patient_data =
     Inl (ValueError ''Model is not loaded, maybe model.pkl does not exist in your dir'')"
  by (simp add: predict_def)

text \<open>
  C1. For every patient-data object in which all 14 canonical keys are present with
  numeric values, \<open>preprocess_input\<close> returns a one-row frame whose columns are exactly
  the 14 canonical names in the canonical order, with or without a scaler; and a request
  that holds the same keys and values in another order gives the same result.
\<close>

theorem preprocess_input_canonical_columns:
  assumes "\<forall>c \<in> set feature_columns. \<exists>x. dict_get patient_data c = Some (PyNum x)"
  shows "(\<exists>df. preprocess_input p self patient_data = Inr df \<and>
              columns df = feature_columns \<and> length (columns df) = 14 \<and> nrows df = 1) \<and>
         (\<forall>other. distinct (map fst patient_data) \<and> distinct (map fst other) \<and>
                  set other = set patient_data \<longrightarrow>
            preprocess_input p self other = preprocess_input p self patient_data)"
proof
  from hashable_numeric [OF assms] obtain df where df: "align_features p patient_data = Inr df"
    using align_features_hashable by blast
  from aligned_shape [OF df] have "columns df = feature_columns" "nrows df = 1" by simp_all
  from apply_scaler_shape [OF this, of self] preprocess_input_aligned [OF df, of self]
  show "\<exists>df. preprocess_input p self patient_data = Inr df \<and>
              columns df = feature_columns \<and> length (columns df) = 14 \<and> nrows df = 1"
    by (simp add: length_feature_columns)
next
  show "\<forall>other. distinct (map fst patient_data) \<and> distinct (map fst other) \<and>
                  set other = set patient_data \<longrightarrow>
            preprocess_input p self other = preprocess_input p self patient_data"
    using dict_get_permuted preprocess_input_cong by blast
qed

theorem preprocess_input_canonical_columns_witness:
  "(\<exists>df. preprocess_input exact_platform plain_service full_request = Inr df \<and>
         columns df = feature_columns \<and> length (columns df) = 14 \<and> nrows df = 1) \<and>
   preprocess_input exact_platform plain_service (rev full_request) =
     preprocess_input exact_platform plain_service full_request"
proof -
  have h: "\<forall>c \<in> set feature_columns. \<exists>x. dict_get full_request c = Some (PyNum x)"
    by (simp add: feature_columns_def full_request_def dict_get_def)
  have "distinct (map fst full_request)"
    by (simp add: full_request_def)
  then have d: "distinct (map fst full_request) \<and> distinct (map fst (rev full_request)) \<and>
           set (rev full_request) = set full_request"
    by (simp add: rev_map [symmetric])
  from preprocess_input_canonical_columns [OF h, of exact_platform plain_service] d
  show ?thesis by blast
qed

text \<open>
  C2. A string that is not a key of a categorical lookup table (the empty string too) is
  looked up as \<open>nan\<close> and filled with 0; for the hypertension table this is the code of
  the explicit negative \<open>No\<close>. In the frame: when no categorical field holds an array
  or an object (then the lookup raises), the column of such a field holds 0 before the
  scaling, and replacing an unseen hypertension value by \<open>No\<close> changes nothing in what
  \<open>preprocess_input\<close> returns.
\<close>

theorem unseen_category_is_zero:
  assumes "(c, table) \<in> set categorical_mappings"
    and "dict_get d c = Some (PyStr s)"
    and "map_of table s = None"
  shows "map_sum id (fillna (PyNum 0)) (series_map table (PyStr s)) = Inr (PyNum 0) \<and>
         (c = ''hypertensiveDisorders'' \<longrightarrow>
            map_sum id (fillna (PyNum 0)) (series_map table (PyStr s)) =
            map_sum id (fillna (PyNum 0)) (series_map table (PyStr ''No''))) \<and>
         (hashable_categoricals d \<longrightarrow>
            (\<exists>df. align_features p d = Inr df \<and> get_column df c = Some [PyNum 0] \<and>
                  (scaler self = None \<longrightarrow> preprocess_input p self d = Inr df)) \<and>
            (c = ''hypertensiveDisorders'' \<longrightarrow>
               preprocess_input p self (dict_set c (PyStr ''No'') d) =
               preprocess_input p self d))"
proof (intro conjI impI)
  show lookup: "map_sum id (fillna (PyNum 0)) (series_map table (PyStr s)) = Inr (PyNum 0)"
    using assms(3) by simp
  show "map_sum id (fillna (PyNum 0)) (series_map table (PyStr s)) =
        map_sum id (fillna (PyNum 0)) (series_map table (PyStr ''No''))"
    if "c = ''hypertensiveDisorders''"
    using that assms(1) lookup by (simp add: hypertension_table)
  have cf: "c \<in> set feature_columns" using categorical_features [OF assms(1)] by simp
  have zero: "cell p d c = PyNum 0"
    using cell_categorical [OF assms(1,2), of PyNaN p] assms(3) by simp
  show "\<exists>df. align_features p d = Inr df \<and> get_column df c = Some [PyNum 0] \<and>
             (scaler self = None \<longrightarrow> preprocess_input p self d = Inr df)"
    if "hashable_categoricals d"
    using aligned_cell [OF that cf, of p self] zero by simp
  show "preprocess_input p self (dict_set c (PyStr ''No'') d) = preprocess_input p self d"
    if h: "hashable_categoricals d" and c: "c = ''hypertensiveDisorders''"
  proof -
    let ?d' = "dict_set c (PyStr ''No'') d"
    have h': "hashable_categoricals ?d'" using h by (rule hashable_dict_set) simp
    have "cell p ?d' c' = cell p d c'" for c'
    proof (cases "c' = c")
      case True
      have "cell p ?d' c = PyNum 0"
        using cell_categorical [OF assms(1), of ?d' "PyStr ''No''" "PyNum 0" p]
          hypertension_table assms(1) c
        by (simp add: dict_get_dict_set)
      with True zero show ?thesis by simp
    next
      case False
      then show ?thesis by (simp add: cell_def dict_get_dict_set)
    qed
    then have "align_features p ?d' = align_features p d"
      using align_features_eq_cells [OF h' h] by simp
    then show ?thesis by (simp add: preprocess_input_def)
  qed
qed

theorem unseen_category_is_zero_witness:
  "(\<exists>df. preprocess_input exact_platform plain_service sparse_request = Inr df \<and>
         get_column df ''nationality'' = Some [PyNum 0]) \<and>
   (\<exists>df. preprocess_input exact_platform plain_service sparse_request = Inr df \<and>
         get_column df ''hypertensiveDisorders'' = Some [PyNum 0]) \<and>
   preprocess_input exact_platform plain_service
       (dict_set ''hypertensiveDisorders'' (PyStr ''No'') sparse_request) =
     preprocess_input exact_platform plain_service sparse_request"
proof -
  have h: "hashable_categoricals sparse_request"
    by (simp add: hashable_categoricals_def categorical_mappings_def sparse_request_def
        dict_get_def)
  have s: "scaler plain_service = None" by (simp add: plain_service_def)
  obtain tn where tn: "(''nationality'', tn) \<in> set categorical_mappings"
    "map_of tn ''Atlantis'' = None"
    by (simp add: categorical_mappings_def)
  obtain th where th: "(''hypertensiveDisorders'', th) \<in> set categorical_mappings"
    "map_of th '''' = None"
    by (simp add: categorical_mappings_def)
  have gn: "dict_get sparse_request ''nationality'' = Some (PyStr ''Atlantis'')"
    and gh: "dict_get sparse_request ''hypertensiveDisorders'' = Some (PyStr '''')"
    by (simp_all add: sparse_request_def dict_get_def)
  from unseen_category_is_zero [OF tn(1) gn tn(2), of exact_platform plain_service]
    unseen_category_is_zero [OF th(1) gh th(2), of exact_platform plain_service] h s
  show ?thesis by auto
qed

text \<open>
  C6, as stated, fails. A request that lacks keys can still make \<open>preprocess_input\<close> raise:
  \<open>array_request\<close> has no \<open>oneHourGlucose\<close>, and its \<open>nationality\<close> is an array, which the
  lookup of line 140 cannot hash. And with a scaler loaded the returned vector holds the
  scaled value, not 0, in the column of an absent key.
\<close>

theorem missing_or_unparseable_refuted:
  "dict_get array_request ''oneHourGlucose'' = None \<and>
   preprocess_input exact_platform plain_service array_request =
     Inl (ValueError (''Data preprocessing failed: unhashable type: '' @ quoted ''list'')) \<and>
   dict_get sparse_request ''oneHourGlucose'' = None \<and>
   map_sum id (\<lambda>df. get_column df ''oneHourGlucose'')
     (preprocess_input exact_platform \<lparr>model = None, scaler = Some full_scaler\<rparr> sparse_request) =
     Inr (Some [PyNum (- 1)])"
proof -
  have h: "hashable_categoricals sparse_request"
    by (simp add: hashable_categoricals_def categorical_mappings_def sparse_request_def
        dict_get_def)
  have a: "dict_get array_request ''oneHourGlucose'' = None"
    and b: "dict_get sparse_request ''oneHourGlucose'' = None"
    by (simp_all add: array_request_def sparse_request_def dict_get_def)
  have c: "preprocess_input exact_platform plain_service array_request =
     Inl (ValueError (''Data preprocessing failed: unhashable type: '' @ quoted ''list''))"
    by (simp add: preprocess_input_def array_request_raises)
  have "cell exact_platform sparse_request ''oneHourGlucose'' = PyNum 0"
    using b by (simp add: cell_def)
  then have "get_column
      \<lparr>nrows = 1, cols = map (\<lambda>c. (c, [minus_one (cell exact_platform sparse_request c)]))
         feature_columns\<rparr> ''oneHourGlucose'' = Some [PyNum (- 1)]"
    by (simp add: get_column_def map_of_map_restrict feature_columns_def)
  with a b c show ?thesis
    by (simp add: full_scaler_result [OF h])
qed

text \<open>
  C6, amended. For a canonical column whose key is absent, and for a numerical column whose
  value \<open>pd.to_numeric\<close> turns into \<open>nan\<close> (a string that does not parse, \<open>None\<close>, \<open>nan\<close>, an
  array, an object): when no categorical field of the request holds an array or an object,
  \<open>preprocess_input\<close> does not raise, the aligned 14-column vector holds 0 in that column,
  and this vector is what is returned when no scaler is loaded (otherwise the scaler is
  applied to it). When a categorical field holds an array or an object, \<open>preprocess_input\<close>
  raises \<open>ValueError\<close>.
\<close>

theorem missing_or_unparseable_is_zero:
  assumes "c \<in> set feature_columns"
    and "dict_get d c = None \<or>
         (c \<in> set numerical_columns \<and> (\<exists>v. dict_get d c = Some v \<and> to_numeric p v = PyNaN))"
  shows "(hashable_categoricals d \<longrightarrow>
            (\<exists>df. align_features p d = Inr df \<and> get_column df c = Some [PyNum 0] \<and>
                  preprocess_input p self d = Inr (apply_scaler self df) \<and>
                  (scaler self = None \<longrightarrow> preprocess_input p self d = Inr df))) \<and>
         (\<not> hashable_categoricals d \<longrightarrow>
            (\<exists>msg. preprocess_input p self d = Inl (ValueError msg)))"
proof (intro conjI impI)
  have zero: "cell p d c = PyNum 0"
    using assms(2) by (auto simp: cell_def)
  show "\<exists>df. align_features p d = Inr df \<and> get_column df c = Some [PyNum 0] \<and>
             preprocess_input p self d = Inr (apply_scaler self df) \<and>
             (scaler self = None \<longrightarrow> preprocess_input p self d = Inr df)"
    if "hashable_categoricals d"
    using aligned_cell [OF that assms(1), of p self] zero
    by (auto simp: preprocess_input_aligned)
  show "\<exists>msg. preprocess_input p self d = Inl (ValueError msg)"
    if "\<not> hashable_categoricals d"
    using that by (rule preprocess_input_raises)
qed

theorem missing_or_unparseable_is_zero_witness:
  "(\<exists>df. preprocess_input exact_platform plain_service sparse_request = Inr df \<and>
         get_column df ''ageYears'' = Some [PyNum 0]) \<and>
   (\<exists>df. preprocess_input exact_platform plain_service sparse_request = Inr df \<and>
         get_column df ''bpSystolic'' = Some [PyNum 0]) \<and>
   (\<exists>msg. preprocess_input exact_platform plain_service array_request = Inl (ValueError msg))"
proof -
  have h: "hashable_categoricals sparse_request"
    by (simp add: hashable_categoricals_def categorical_mappings_def sparse_request_def
        dict_get_def)
  have nh: "\<not> hashable_categoricals array_request"
    by (simp add: hashable_categoricals_def categorical_mappings_def array_request_def
        dict_get_def)
  have s: "scaler plain_service = None" by (simp add: plain_service_def)
  have a: "''ageYears'' \<in> set feature_columns" "dict_get sparse_request ''ageYears'' = None"
    "dict_get array_request ''ageYears'' = None"
    by (simp_all add: feature_columns_def sparse_request_def array_request_def dict_get_def)
  have b: "''bpSystolic'' \<in> set feature_columns"
    "''bpSystolic'' \<in> set numerical_columns \<and>
     (\<exists>v. dict_get sparse_request ''bpSystolic'' = Some v \<and> to_numeric exact_platform v = PyNaN)"
    by (simp_all add: feature_columns_def numerical_columns_def sparse_request_def dict_get_def
        exact_platform_def)
  from missing_or_unparseable_is_zero [OF a(1), of sparse_request exact_platform plain_service]
    missing_or_unparseable_is_zero [OF b(1), of sparse_request exact_platform plain_service]
    missing_or_unparseable_is_zero [OF a(1), of array_request exact_platform plain_service]
    a b h nh s
  show ?thesis by auto
qed

text \<open>
  C10, as stated, fails: a categorical field may hold a non-string value that cannot be
  hashed, and then nothing is mapped to 0; \<open>preprocess_input\<close> raises.
\<close>

theorem non_string_category_refuted:
  "dict_get object_request ''typeOfTreatment'' = Some (PyDict []) \<and>
   preprocess_input exact_platform plain_service object_request =
     Inl (ValueError (''Data preprocessing failed: unhashable type: '' @ quoted ''dict''))"
  by (simp add: preprocess_input_def object_request_raises)
     (simp add: object_request_def dict_get_def)

text \<open>
  C10, amended. A non-string value of a categorical field that can be hashed (\<open>None\<close>, a
  boolean, a number, \<open>nan\<close>) is looked up as \<open>nan\<close> and filled with 0, as an unseen string
  is, so an integer code sent by the caller is erased; the column holds 0 before the
  scaling whenever no categorical field holds an array or an object. A value that
  cannot be hashed (an array, an object) makes \<open>preprocess_input\<close> raise \<open>ValueError\<close>.
\<close>

theorem non_string_category:
  assumes "(c, table) \<in> set categorical_mappings"
    and "dict_get d c = Some v"
    and "\<forall>s. v \<noteq> PyStr s"
  shows "(unhashable v \<longrightarrow> (\<exists>msg. preprocess_input p self d = Inl (ValueError msg))) \<and>
         (\<not> unhashable v \<longrightarrow>
            map_sum id (fillna (PyNum 0)) (series_map table v) = Inr (PyNum 0)) \<and>
         (hashable_categoricals d \<longrightarrow>
            (\<exists>df. align_features p d = Inr df \<and> get_column df c = Some [PyNum 0] \<and>
                  (scaler self = None \<longrightarrow> preprocess_input p self d = Inr df)))"
proof (intro conjI impI)
  show "\<exists>msg. preprocess_input p self d = Inl (ValueError msg)" if "unhashable v"
    using unhashable_not_hashable [OF assms(1,2) that] by (rule preprocess_input_raises)
  show lookup: "map_sum id (fillna (PyNum 0)) (series_map table v) = Inr (PyNum 0)"
    if "\<not> unhashable v"
    using that assms(3) by (cases v) auto
  show "\<exists>df. align_features p d = Inr df \<and> get_column df c = Some [PyNum 0] \<and>
             (scaler self = None \<longrightarrow> preprocess_input p self d = Inr df)"
    if h: "hashable_categoricals d"
  proof -
    have nu: "\<not> unhashable v" using hashable_categoricalsD [OF h assms(1,2)] .
    then have "series_map table v = Inr PyNaN" using assms(3) by (cases v) auto
    from cell_categorical [OF assms(1,2) this, of p] have "cell p d c = PyNum 0" by simp
    with aligned_cell [OF h, of c p self] categorical_features [OF assms(1)]
    show ?thesis by simp
  qed
qed

theorem non_string_category_witness:
  "(\<exists>df. preprocess_input exact_platform plain_service sparse_request = Inr df \<and>
         get_column df ''typeOfTreatment'' = Some [PyNum 0]) \<and>
   (\<exists>msg. preprocess_input exact_platform plain_service object_request = Inl (ValueError msg))"
proof -
  have h: "hashable_categoricals sparse_request"
    by (simp add: hashable_categoricals_def categorical_mappings_def sparse_request_def
        dict_get_def)
  have s: "scaler plain_service = None" by (simp add: plain_service_def)
  obtain t where t: "(''typeOfTreatment'', t) \<in> set categorical_mappings"
    by (simp add: categorical_mappings_def)
  have g: "dict_get sparse_request ''typeOfTreatment'' = Some (PyNum 1)"
    "dict_get object_request ''typeOfTreatment'' = Some (PyDict [])"
    by (simp_all add: sparse_request_def object_request_def dict_get_def)
  from non_string_category [OF t g(1), of exact_platform plain_service]
    non_string_category [OF t g(2), of exact_platform plain_service] h s
  show ?thesis by auto
qed

text \<open>
  C7. On the aligned frame of a request: with no scaler loaded, \<open>preprocess_input\<close> returns
  the frame unchanged. With a scaler whose recorded feature names are 14, the scaler is
  given the whole frame and its 14 outputs become the 14 columns. With a scaler that
  records another number of names, or none, the scaler is given the frame of the 11
  numerical columns (the same cells), its 11 outputs replace these columns, and the
  categorical columns stay as they were.
\<close>

theorem scaler_selection:
  assumes "align_features p d = Inr df"
  shows "(scaler self = None \<longrightarrow> preprocess_input p self d = Inr df) \<and>
         (\<forall>sc names row.
            scaler self = Some sc \<and> feature_names_in sc = Some names \<and> length names = 14 \<and>
            transform sc df = Inr row \<and> length row = 14 \<longrightarrow>
            preprocess_input p self d =
              Inr \<lparr>nrows = 1, cols = zip feature_columns (map (\<lambda>v. [v]) row)\<rparr>) \<and>
         (\<forall>sc. scaler self = Some sc \<and>
               (\<forall>names. feature_names_in sc = Some names \<longrightarrow> length names \<noteq> 14) \<longrightarrow>
            (\<exists>numeric.
               select_columns numerical_columns df = Inr numeric \<and>
               columns numeric = numerical_columns \<and>
               (\<forall>c \<in> set numerical_columns. get_column numeric c = get_column df c) \<and>
               (\<forall>row. transform sc numeric = Inr row \<and> length row = 11 \<longrightarrow>
                  (\<exists>out. preprocess_input p self d = Inr out \<and>
                     columns out = feature_columns \<and>
                     (\<forall>i < 11. get_column out (numerical_columns ! i) = Some [row ! i]) \<and>
                     (\<forall>c. c \<notin> set numerical_columns \<longrightarrow>
                          get_column out c = get_column df c)))))"
proof (intro conjI allI impI)
  note shape = aligned_shape [OF assms]
  note pre = preprocess_input_aligned [OF assms, of self]
  show "preprocess_input p self d = Inr df" if "scaler self = None"
    using that pre by (simp add: apply_scaler_None)
  show "preprocess_input p self d =
          Inr \<lparr>nrows = 1, cols = zip feature_columns (map (\<lambda>v. [v]) row)\<rparr>"
    if "scaler self = Some sc \<and> feature_names_in sc = Some names \<and> length names = 14 \<and>
        transform sc df = Inr row \<and> length row = 14" for sc names row
    using that pre shape
    by (simp add: apply_scaler_def DataFrame_of_array_def length_feature_columns)
  show "\<exists>numeric.
          select_columns numerical_columns df = Inr numeric \<and>
          columns numeric = numerical_columns \<and>
          (\<forall>c \<in> set numerical_columns. get_column numeric c = get_column df c) \<and>
          (\<forall>row. transform sc numeric = Inr row \<and> length row = 11 \<longrightarrow>
             (\<exists>out. preprocess_input p self d = Inr out \<and>
                columns out = feature_columns \<and>
                (\<forall>i < 11. get_column out (numerical_columns ! i) = Some [row ! i]) \<and>
                (\<forall>c. c \<notin> set numerical_columns \<longrightarrow> get_column out c = get_column df c)))"
    if sc: "scaler self = Some sc \<and>
        (\<forall>names. feature_names_in sc = Some names \<longrightarrow> length names \<noteq> 14)" for sc
  proof -
    from select_numerical shape obtain numeric where
      num: "select_columns numerical_columns df = Inr numeric"
        "columns numeric = numerical_columns"
        "\<forall>c \<in> set numerical_columns. get_column numeric c = get_column df c"
      by blast
    have branch: "\<not> (case feature_names_in sc of
                 Some names \<Rightarrow> length names = length feature_columns
               | None \<Rightarrow> False)"
      using sc by (auto simp: length_feature_columns split: option.split)
    have len: "length numerical_columns = 11" by (simp add: numerical_columns_def)
    have "\<exists>out. preprocess_input p self d = Inr out \<and>
                columns out = feature_columns \<and>
                (\<forall>i < 11. get_column out (numerical_columns ! i) = Some [row ! i]) \<and>
                (\<forall>c. c \<notin> set numerical_columns \<longrightarrow> get_column out c = get_column df c)"
      if row: "transform sc numeric = Inr row \<and> length row = 11" for row
    proof -
      let ?out = "fold (\<lambda>(c, v). set_column c [v]) (zip numerical_columns row) df"
      have dz: "distinct (map fst (zip numerical_columns row))"
        using row len distinct_numerical_columns by simp
      have "preprocess_input p self d = Inr ?out"
        using pre sc branch num(1) row shape
        by (simp add: apply_scaler_def set_columns_array_def len)
      moreover have "columns ?out = feature_columns"
      proof -
        have "fst ` set (zip numerical_columns row) \<subseteq> set (columns df)"
          using numerical_subset shape by (auto dest: set_zip_leftD)
        then show ?thesis using shape by (simp add: columns_fold_set_column)
      qed
      moreover have "get_column ?out (numerical_columns ! i) = Some [row ! i]" if "i < 11" for i
        using that row len distinct_numerical_columns
        by (simp add: get_column_fold_set_column [OF dz] map_of_zip_nth)
      moreover have "get_column ?out c = get_column df c" if "c \<notin> set numerical_columns" for c
      proof -
        have "map_of (zip numerical_columns row) c = None"
          using that by (auto simp: map_of_eq_None_iff dest: set_zip_leftD)
        then show ?thesis by (simp add: get_column_fold_set_column [OF dz])
      qed
      ultimately show ?thesis by blast
    qed
    with num show ?thesis by blast
  qed
qed

theorem scaler_selection_witness:
  "(\<exists>df. align_features exact_platform sparse_request = Inr df \<and>
         preprocess_input exact_platform plain_service sparse_request = Inr df) \<and>
   (\<exists>df. align_features exact_platform sparse_request = Inr df \<and>
         preprocess_input exact_platform \<lparr>model = None, scaler = Some full_scaler\<rparr>
             sparse_request =
           Inr \<lparr>nrows = 1,
                cols = zip feature_columns
                         (map (\<lambda>v. [v]) (map (\<lambda>(c, vs). minus_one (hd vs)) (cols df)))\<rparr>) \<and>
   (\<exists>out. preprocess_input exact_platform \<lparr>model = None, scaler = Some numeric_scaler\<rparr>
             sparse_request = Inr out \<and>
          columns out = feature_columns \<and>
          get_column out ''nationality'' = Some [PyNum 0])"
proof -
  have h: "hashable_categoricals sparse_request"
    by (simp add: hashable_categoricals_def categorical_mappings_def sparse_request_def
        dict_get_def)
  from align_features_hashable [OF h, of exact_platform] obtain df where
    df: "align_features exact_platform sparse_request = Inr df" by blast
  note shape = aligned_shape [OF df]
  have nat: "get_column df ''nationality'' = Some [PyNum 0]"
  proof -
    have "''nationality'' \<in> set feature_columns" by (simp add: feature_columns_def)
    moreover have "cell exact_platform sparse_request ''nationality'' = PyNum 0"
      by (simp add: cell_def sparse_request_def dict_get_def numerical_columns_def
          categorical_mappings_def)
    ultimately show ?thesis using shape by simp
  qed
  have one: "preprocess_input exact_platform plain_service sparse_request = Inr df"
    using scaler_selection [OF df, of plain_service] by (simp add: plain_service_def)
  let ?row = "map (\<lambda>(c, vs). minus_one (hd vs)) (cols df)"
  have "length (cols df) = 14"
    using shape length_feature_columns by (simp add: columns_def flip: length_map [of fst])
  then have two: "preprocess_input exact_platform \<lparr>model = None, scaler = Some full_scaler\<rparr>
      sparse_request = Inr \<lparr>nrows = 1, cols = zip feature_columns (map (\<lambda>v. [v]) ?row)\<rparr>"
    using scaler_selection [OF df, of "\<lparr>model = None, scaler = Some full_scaler\<rparr>"]
    by (simp add: full_scaler_def centre_row_def length_feature_columns)
  have "\<forall>names. feature_names_in numeric_scaler = Some names \<longrightarrow> length names \<noteq> 14"
    by (simp add: numeric_scaler_def numerical_columns_def)
  with scaler_selection [OF df, of "\<lparr>model = None, scaler = Some numeric_scaler\<rparr>"]
  obtain numeric where num: "columns numeric = numerical_columns"
    "\<forall>row. transform numeric_scaler numeric = Inr row \<and> length row = 11 \<longrightarrow>
       (\<exists>out. preprocess_input exact_platform \<lparr>model = None, scaler = Some numeric_scaler\<rparr>
                 sparse_request = Inr out \<and>
          columns out = feature_columns \<and>
          (\<forall>i < 11. get_column out (numerical_columns ! i) = Some [row ! i]) \<and>
          (\<forall>c. c \<notin> set numerical_columns \<longrightarrow> get_column out c = get_column df c))"
    by auto
  have "length (cols numeric) = 11"
    using num(1) by (simp add: columns_def numerical_columns_def flip: length_map [of fst])
  then have "transform numeric_scaler numeric = Inr (map (\<lambda>(c, vs). minus_one (hd vs)) (cols numeric))
      \<and> length (map (\<lambda>(c, vs). minus_one (hd vs)) (cols numeric)) = 11"
    by (simp add: numeric_scaler_def centre_row_def)
  with num(2) obtain out where out:
    "preprocess_input exact_platform \<lparr>model = None, scaler = Some numeric_scaler\<rparr>
        sparse_request = Inr out"
    "columns out = feature_columns"
    "\<forall>c. c \<notin> set numerical_columns \<longrightarrow> get_column out c = get_column df c"
    by blast
  have "''nationality'' \<notin> set numerical_columns" by (simp add: numerical_columns_def)
  with out(3) nat have "get_column out ''nationality'' = Some [PyNum 0]" by simp
  with out(1,2) one two df show ?thesis by blast
qed



text \<open>
  C4. Floats are read as the reals they denote, and each float operation as the exact
  operation followed by a rounding that keeps the order and leaves 0 and 100 unchanged.
  Then, for every result of \<open>predict\<close> whose probability vector has its entries in
  \<open>[0, 1]\<close>: \<open>confidence\<close> is the largest probability times 100 and \<open>gdm_probability\<close> the
  second entry times 100 (0 for a vector of one entry), both rounded to two decimals
  (the double nearest to a multiple of 1/100), and both lie in \<open>[0, 100]\<close>.
\<close>

theorem percentages_in_range:
  assumes "rounding (fl_array p)" and "rounding (fl_double p)"
    and "predict p self d = Inr r"
    and "model self = Some m" and "preprocess_input p self d = Inr processed"
    and "model_predict_proba m processed = Inr (proba # rest)"
    and "\<forall>x \<in> set proba. 0 \<le> x \<and> x \<le> 1"
  shows "0 \<le> confidence r \<and> confidence r \<le> 100 \<and>
         0 \<le> gdm_probability r \<and> gdm_probability r \<le> 100 \<and>
         (\<exists>k :: int. confidence r = fl_double p (of_int k / 100)) \<and>
         (\<exists>k :: int. gdm_probability r = fl_double p (of_int k / 100)) \<and>
         confidence r = py_round2 p (fl_array p (Max (set proba) * 100)) \<and>
         gdm_probability r =
           (if 1 < length proba then py_round2 p (fl_array p (proba ! 1 * 100)) else 0)"
proof -
  from predict_Inr [OF assms(3)] assms(4,5,6) obtain largest where
    mx: "py_max proba = Inr largest"
    and c: "confidence r = py_round2 p (fl_array p (largest * 100))"
    and g: "gdm_probability r =
           (if 1 < length proba then py_round2 p (fl_array p (proba ! 1 * 100)) else 0)"
    by auto
  from py_max_mem [OF mx] have l: "largest = Max (set proba)" and lm: "largest \<in> set proba"
    by blast+
  from lm assms(7) have lb: "0 \<le> largest" "largest \<le> 1" by auto
  note cb = percentage_bounds [OF assms(1,2) lb]
  have gb: "0 \<le> gdm_probability r \<and> gdm_probability r \<le> 100"
  proof (cases "1 < length proba")
    case True
    then have "proba ! 1 \<in> set proba" by simp
    with assms(7) have "0 \<le> proba ! 1" "proba ! 1 \<le> 1" by auto
    from percentage_bounds [OF assms(1,2) this] True g show ?thesis by simp
  next
    case False
    with g show ?thesis by simp
  qed
  have z: "fl_double p (of_int 0 / 100) = 0" using assms(2) by (simp add: rounding_def)
  have gk: "\<exists>k :: int. gdm_probability r = fl_double p (of_int k / 100)"
  proof (cases "1 < length proba")
    case True
    with g show ?thesis unfolding py_round2_def by auto
  next
    case False
    with g z show ?thesis by metis
  qed
  have ck: "\<exists>k :: int. confidence r = fl_double p (of_int k / 100)"
    using c unfolding py_round2_def by auto
  from cb gb ck gk c g l show ?thesis by simp
qed

theorem percentages_in_range_witness:
  "\<exists>r. predict exact_platform plain_service full_request = Inr r \<and>
       0 \<le> confidence r \<and> confidence r \<le> 100 \<and>
       0 \<le> gdm_probability r \<and> gdm_probability r \<le> 100 \<and>
       confidence r = 70 \<and> gdm_probability r = 70"
proof -
  have h: "hashable_categoricals full_request"
    by (simp add: hashable_categoricals_def categorical_mappings_def full_request_def
        dict_get_def)
  from align_features_hashable [OF h, of exact_platform] obtain df where
    df: "preprocess_input exact_platform plain_service full_request = Inr df"
    by (auto simp: preprocess_input_def)
  have r: "rounding (fl_array exact_platform)" "rounding (fl_double exact_platform)"
    by (simp_all add: rounding_def exact_platform_def mono_def)
  have m: "model plain_service = Some example_model" by (simp add: plain_service_def)
  have pp: "model_predict_proba example_model df = Inr ([3 / 10, 7 / 10] # [])"
    by (simp add: example_model_def)
  have rng: "\<forall>x \<in> set [3 / 10, 7 / 10 :: real]. 0 \<le> x \<and> x \<le> 1" by simp
  from percentages_in_range [OF r predict_example [OF h] m df pp rng] predict_example [OF h]
  show ?thesis by simp
qed

section \<open>Lemmas on the data shaper\<close>

lemma nrows_strip_columns: "nrows (strip_columns df) = nrows df"
  by (simp add: strip_columns_def)

lemma cols_strip_columns:
  "(c, vs) \<in> set (cols (strip_columns df)) \<Longrightarrow> \<exists>k. strip k = c \<and> (k, vs) \<in> set (cols df)"
  by (auto simp: strip_columns_def)

lemma nrows_drop_unnamed: "nrows (drop_unnamed df) = nrows df"
  by (simp add: drop_unnamed_def)

lemma cols_drop_unnamed: "set (cols (drop_unnamed df)) \<subseteq> set (cols df)"
  by (auto simp: drop_unnamed_def)

lemma drop_column_sub:
  "drop_column c df = Inr df' \<Longrightarrow> nrows df' = nrows df \<and> set (cols df') \<subseteq> set (cols df)"
  by (auto simp: drop_column_def split: if_splits)

lemma drop_matches_sub:
  "drop_matches ms df = Inr df' \<Longrightarrow> nrows df' = nrows df \<and> set (cols df') \<subseteq> set (cols df)"
proof (induction ms arbitrary: df)
  case Nil
  then show ?case by simp
next
  case (Cons m ms)
  then obtain df1 where 1: "drop_column m df = Inr df1" and 2: "drop_matches ms df1 = Inr df'"
    by (auto split: sum.splits)
  from drop_column_sub [OF 1] Cons.IH [OF 2] show ?case by auto
qed

lemma remove_columns_sub:
  "remove_columns cs g n = Inr (g', n') \<Longrightarrow>
   nrows g' = nrows g \<and> set (cols g') \<subseteq> set (cols g) \<and>
   nrows n' = nrows n \<and> set (cols n') \<subseteq> set (cols n)"
proof (induction cs arbitrary: g n)
  case Nil
  then show ?case by simp
next
  case (Cons c cs)
  then obtain g1 n1 where
    1: "drop_matches (matching_cols c g) g = Inr g1"
    and 2: "drop_matches (matching_cols c n) n = Inr n1"
    and 3: "remove_columns cs g1 n1 = Inr (g', n')"
    by (auto split: sum.splits)
  from drop_matches_sub [OF 1] drop_matches_sub [OF 2] Cons.IH [OF 3] show ?case by auto
qed

lemma select_columns_sub:
  "select_columns names df = Inr df' \<Longrightarrow>
   nrows df' = nrows df \<and> set (cols df') \<subseteq> set (cols df) \<and>
   set names \<subseteq> set (columns df) \<and>
   columns df' = concat (map (\<lambda>c. filter (\<lambda>k. k = c) (columns df)) names)"
proof -
  assume a: "select_columns names df = Inr df'"
  have "map fst (filter (\<lambda>(k, vs). k = c) xs) = filter (\<lambda>k. k = c) (map fst xs)"
    for c :: string and xs :: "(string \<times> pyval list) list"
    by (induction xs) auto
  then have "map fst (concat (map (\<lambda>c. filter (\<lambda>(k, vs). k = c) (cols df)) names)) =
        concat (map (\<lambda>c. filter (\<lambda>k. k = c) (columns df)) names)"
    by (simp add: map_concat comp_def columns_def)
  with a show ?thesis
    by (auto simp: select_columns_def columns_def split: if_splits)
qed

lemma singleton_filter:
  assumes "distinct (filter (\<lambda>k. k = c) xs)" and "c \<in> set xs"
  shows "filter (\<lambda>k. k = c) xs = [c]"
proof (cases "filter (\<lambda>k. k = c) xs")
  case Nil
  with assms(2) show ?thesis by (auto simp: filter_empty_conv)
next
  case (Cons y ys)
  have all: "set (filter (\<lambda>k. k = c) xs) \<subseteq> {c}" by auto
  with Cons have y: "y = c" and ys: "set ys \<subseteq> {c}" by auto
  from assms(1) Cons have "y \<notin> set ys" by simp
  with y ys have "ys = []" by (cases ys) auto
  with Cons y show ?thesis by simp
qed

lemma selected_names_distinct:
  assumes "distinct (concat (map (\<lambda>c. filter (\<lambda>k. k = c) xs) names))"
    and "set names \<subseteq> set xs"
  shows "concat (map (\<lambda>c. filter (\<lambda>k. k = c) xs) names) = names"
  using assms
proof (induction names)
  case Nil
  then show ?case by simp
next
  case (Cons a names)
  then have "filter (\<lambda>k. k = a) xs = [a]" by (intro singleton_filter) simp_all
  with Cons show ?case by simp
qed

lemma columns_set_scalar:
  "columns (set_scalar c v df) = (if c \<in> set (columns df) then columns df else columns df @ [c])"
  by (simp add: set_scalar_def columns_set_column)

lemma nrows_set_scalar: "nrows (set_scalar c v df) = nrows df"
  by (simp add: set_scalar_def nrows_set_column)

lemma cols_set_scalar:
  "(k, vs) \<in> set (cols (set_scalar c v df)) \<Longrightarrow>
   (if k = c then vs = replicate (nrows df) v else (k, vs) \<in> set (cols df))"
  by (force simp: set_scalar_def set_column_def columns_def split: if_splits)

lemma mem_columns_set_scalar: "c \<in> set (columns (set_scalar c v df))"
  by (simp add: columns_set_scalar)

lemma concat_frames_same:
  assumes "concat_frames a b = Inr combined" and "columns a = columns b"
  shows "nrows combined = nrows a + nrows b \<and> columns combined = columns a \<and>
         (\<forall>(c, vs) \<in> set (cols combined).
            \<exists>xs ys. vs = xs @ ys \<and> (c, xs) \<in> set (cols a) \<and> (c, ys) \<in> set (cols b))"
proof -
  have len: "length (cols a) = length (cols b)"
    using arg_cong [OF assms(2), of length] by (simp add: columns_def)
  have names: "fst x = fst y" if "(x, y) \<in> set (zip (cols a) (cols b))" for x y
  proof -
    from that obtain i where i: "i < length (cols a)" "x = cols a ! i" "y = cols b ! i"
      by (auto simp: set_zip)
    then have "fst x = columns a ! i" "fst y = columns b ! i"
      using len by (simp_all add: columns_def)
    with assms(2) show ?thesis by simp
  qed
  from assms have c: "combined = \<lparr>nrows = nrows a + nrows b,
       cols = map (\<lambda>((k, xs), (k', ys)). (k, xs @ ys)) (zip (cols a) (cols b))\<rparr>"
    by (simp add: concat_frames_def)
  have "map fst (map (\<lambda>((k, xs), (k', ys)). (k, xs @ ys)) (zip (cols a) (cols b))) =
        map fst (map fst (zip (cols a) (cols b)))"
    by (simp add: split_def)
  also have "map fst (zip (cols a) (cols b)) = cols a"
    using len by simp
  finally have cc: "columns combined = columns a"
    by (simp add: c columns_def)
  have n: "nrows combined = nrows a + nrows b" by (simp add: c)
  have "\<exists>xs ys. vs = xs @ ys \<and> (k, xs) \<in> set (cols a) \<and> (k, ys) \<in> set (cols b)"
    if "(k, vs) \<in> set (cols combined)" for k vs
  proof -
    from that obtain k1 xs k2 ys where m: "((k1, xs), (k2, ys)) \<in> set (zip (cols a) (cols b))"
      and e: "k = k1" "vs = xs @ ys"
      by (auto simp: c)
    from names [OF m] have "k2 = k1" by simp
    with m e show ?thesis by (auto dest: set_zip_leftD set_zip_rightD)
  qed
  then have "\<forall>(c, vs) \<in> set (cols combined).
            \<exists>xs ys. vs = xs @ ys \<and> (c, xs) \<in> set (cols a) \<and> (c, ys) \<in> set (cols b)"
    by blast
  with n cc show ?thesis by blast
qed

lemma distinct_columns_set_scalar:
  "distinct (columns (set_scalar c v df)) \<Longrightarrow> distinct (columns df)"
  by (simp add: columns_set_scalar split: if_splits)

lemma cleaned_sheet:
  "nrows (drop_unnamed (strip_columns sheet)) = nrows sheet \<and>
   set (cols (drop_unnamed (strip_columns sheet))) \<subseteq> set (cols (strip_columns sheet))"
  using cols_drop_unnamed [of "strip_columns sheet"]
  by (simp add: nrows_drop_unnamed nrows_strip_columns)

lemma shape_sheets_Inr:
  assumes "shape_sheets h gdm_sheet ngdm_sheet = Inr combined"
  shows "nrows combined = nrows gdm_sheet + nrows ngdm_sheet \<and>
     ''GDM'' \<in> set (columns combined) \<and>
     (\<forall>(c, vs) \<in> set (cols combined).
        if c = ''GDM''
        then vs = replicate (nrows ngdm_sheet) (PyNum 0) @ replicate (nrows gdm_sheet) (PyNum 1)
        else \<exists>xs ys. vs = xs @ ys \<and>
               ((c, xs) \<in> set (cols (strip_columns ngdm_sheet)) \<or>
                c = ''Type of treatment'' \<and>
                xs = replicate (nrows ngdm_sheet) (PyStr ''No Treatment'')) \<and>
               (c, ys) \<in> set (cols (strip_columns gdm_sheet)))"
proof -
  define g0 where "g0 = drop_unnamed (strip_columns gdm_sheet)"
  define n0 where "n0 = drop_unnamed (strip_columns ngdm_sheet)"
  from assms obtain g1 n1 where
    rem: "remove_columns columns_to_remove g0 n0 = Inr (g1, n1)"
    unfolding g0_def n0_def
    by (auto simp: shape_sheets_def Let_def split: sum.splits)
  define n2 where "n2 = (if ''Type of treatment'' \<notin> set (columns n1)
             then set_scalar ''Type of treatment'' (PyStr ''No Treatment'') n1 else n1)"
  define common where "common = common_columns h g1 n2"
  from assms rem obtain gdm_common ngdm_common where
    sg: "select_columns common g1 = Inr gdm_common"
    and sn: "select_columns common n2 = Inr ngdm_common"
    and cat: "concat_frames (set_scalar ''GDM'' (PyNum 0) ngdm_common)
                (set_scalar ''GDM'' (PyNum 1) gdm_common) = Inr combined"
    unfolding g0_def n0_def n2_def common_def
    by (auto simp: shape_sheets_def Let_def split: sum.splits)
  define a where "a = set_scalar ''GDM'' (PyNum 0) ngdm_common"
  define b where "b = set_scalar ''GDM'' (PyNum 1) gdm_common"
  note r = remove_columns_sub [OF rem]
  have cg: "nrows g0 = nrows gdm_sheet" "set (cols g0) \<subseteq> set (cols (strip_columns gdm_sheet))"
    using cleaned_sheet [of gdm_sheet] by (simp_all add: g0_def)
  have cn: "nrows n0 = nrows ngdm_sheet" "set (cols n0) \<subseteq> set (cols (strip_columns ngdm_sheet))"
    using cleaned_sheet [of ngdm_sheet] by (simp_all add: n0_def)
  note fg = select_columns_sub [OF sg]
  note fn = select_columns_sub [OF sn]
  have ng: "nrows gdm_common = nrows gdm_sheet" using fg r cg by simp
  have n2: "nrows n2 = nrows ngdm_sheet" using r cn by (simp add: n2_def nrows_set_scalar)
  have nn: "nrows ngdm_common = nrows ngdm_sheet" using fn n2 by simp
  have same: "columns a = columns b"
  proof (rule ccontr)
    assume ne: "columns a \<noteq> columns b"
    with cat have "distinct (columns a)" "distinct (columns b)"
      unfolding a_def b_def by (auto simp: concat_frames_def split: if_splits)
    then have dn: "distinct (columns ngdm_common)" and dg: "distinct (columns gdm_common)"
      unfolding a_def b_def by (auto dest: distinct_columns_set_scalar)
    from fn have en: "columns ngdm_common = concat (map (\<lambda>c. filter (\<lambda>k. k = c) (columns n2)) common)"
      and subn: "set common \<subseteq> set (columns n2)" by simp_all
    from fg have eg: "columns gdm_common = concat (map (\<lambda>c. filter (\<lambda>k. k = c) (columns g1)) common)"
      and subg: "set common \<subseteq> set (columns g1)" by simp_all
    have "columns ngdm_common = common"
      using selected_names_distinct [OF dn [unfolded en] subn] en by simp
    moreover have "columns gdm_common = common"
      using selected_names_distinct [OF dg [unfolded eg] subg] eg by simp
    ultimately have "columns a = columns b" by (simp add: a_def b_def columns_set_scalar)
    with ne show False by contradiction
  qed
  note c = concat_frames_same [OF cat [folded a_def b_def] same]
  have gdm_col: "(k, ys) \<in> set (cols (strip_columns gdm_sheet))"
    if "(k, ys) \<in> set (cols gdm_common)" for k ys
    using that fg r cg by blast
  have n2_col: "(k, xs) \<in> set (cols n1) \<or>
      k = ''Type of treatment'' \<and> xs = replicate (nrows n1) (PyStr ''No Treatment'')"
    if m: "(k, xs) \<in> set (cols n2)" for k xs
  proof (cases "''Type of treatment'' \<notin> set (columns n1)")
    case True
    with m have "(k, xs) \<in> set (cols (set_scalar ''Type of treatment'' (PyStr ''No Treatment'') n1))"
      by (simp add: n2_def)
    from cols_set_scalar [OF this] show ?thesis by (cases "k = ''Type of treatment''") simp_all
  next
    case False
    with m show ?thesis by (simp add: n2_def)
  qed
  have ngdm_col: "(k, xs) \<in> set (cols (strip_columns ngdm_sheet)) \<or>
      k = ''Type of treatment'' \<and> xs = replicate (nrows ngdm_sheet) (PyStr ''No Treatment'')"
    if "(k, xs) \<in> set (cols ngdm_common)" for k xs
  proof -
    from that fn have "(k, xs) \<in> set (cols n2)" by blast
    from n2_col [OF this] r cn show ?thesis by auto
  qed
  have label: "''GDM'' \<in> set (columns combined)"
    using c mem_columns_set_scalar [of "''GDM''" "PyNum 0" ngdm_common] by (simp add: a_def)
  have column: "if k = ''GDM''
        then vs = replicate (nrows ngdm_sheet) (PyNum 0) @ replicate (nrows gdm_sheet) (PyNum 1)
        else \<exists>xs ys. vs = xs @ ys \<and>
               ((k, xs) \<in> set (cols (strip_columns ngdm_sheet)) \<or>
                k = ''Type of treatment'' \<and>
                xs = replicate (nrows ngdm_sheet) (PyStr ''No Treatment'')) \<and>
               (k, ys) \<in> set (cols (strip_columns gdm_sheet))"
    if "(k, vs) \<in> set (cols combined)" for k vs
  proof -
    from that c obtain xs ys where v: "vs = xs @ ys"
      and ma: "(k, xs) \<in> set (cols a)" and mb: "(k, ys) \<in> set (cols b)"
      by blast
    note sa = cols_set_scalar [OF ma [unfolded a_def]]
    note sb = cols_set_scalar [OF mb [unfolded b_def]]
    show ?thesis
    proof (cases "k = ''GDM''")
      case True
      with sa sb v ng nn show ?thesis by simp
    next
      case False
      with sa sb have mn: "(k, xs) \<in> set (cols ngdm_common)"
        and mg: "(k, ys) \<in> set (cols gdm_common)"
        by simp_all
      from gdm_col [OF mg] ngdm_col [OF mn] False v show ?thesis by auto
    qed
  qed
  have rows: "nrows combined = nrows gdm_sheet + nrows ngdm_sheet"
    using c by (simp add: a_def b_def nrows_set_scalar ng nn)
  from rows label column show ?thesis by blast
qed

lemma process_gdm_data_True:
  "fst (process_gdm_data w fs file_path output_file) \<longleftrightarrow>
     (\<exists>gdm_sheet ngdm_sheet combined.
        fs file_path \<noteq> None \<and>
        read_excel fs file_path ''GDM'' = Inr gdm_sheet \<and>
        read_excel fs file_path ''NGDM'' = Inr ngdm_sheet \<and>
        shape_sheets (str_hash w) gdm_sheet ngdm_sheet = Inr combined \<and>
        disk w output_file combined = Written \<and>
        snd (process_gdm_data w fs file_path output_file) = fs(output_file \<mapsto> Csv combined))"
  by (auto simp: process_gdm_data_def to_csv_def split: sum.splits write_outcome.splits)


lemma example_shape:
  "shape_sheets length gdm_example ngdm_example =
     Inr \<lparr>nrows = 5,
          cols =
            [(''Age'', [PyNum 25, PyNum 28, PyNum 31, PyNum 30, PyNum 35]),
             (''BMI'', [PyNum 22, PyNum 24, PyNum 23, PyNum 31, PyNum 29]),
             (''Type of treatment'',
              [PyStr ''No Treatment'', PyStr ''No Treatment'',
               PyStr ''No Treatment'', PyStr ''Metformin'', PyStr ''yes'']),
             (''GDM'', [PyNum 0, PyNum 0, PyNum 0, PyNum 1, PyNum 1])]\<rparr>"
  by code_simp

lemma example_reads:
  "example_files ''GDM_UOS.xlsx'' \<noteq> None"
  "read_excel example_files ''GDM_UOS.xlsx'' ''GDM'' = Inr gdm_example"
  "read_excel example_files ''GDM_UOS.xlsx'' ''NGDM'' = Inr ngdm_example"
  by (simp_all add: example_files_def read_excel_def)

lemma example_run:
  "process_gdm_data good_run example_files ''GDM_UOS.xlsx'' output_file =
     (True, example_files(output_file \<mapsto> Csv
        \<lparr>nrows = 5,
          cols =
            [(''Age'', [PyNum 25, PyNum 28, PyNum 31, PyNum 30, PyNum 35]),
             (''BMI'', [PyNum 22, PyNum 24, PyNum 23, PyNum 31, PyNum 29]),
             (''Type of treatment'',
              [PyStr ''No Treatment'', PyStr ''No Treatment'',
               PyStr ''No Treatment'', PyStr ''Metformin'', PyStr ''yes'']),
             (''GDM'', [PyNum 0, PyNum 0, PyNum 0, PyNum 1, PyNum 1])]\<rparr>))"
  using example_reads example_shape
  by (simp add: process_gdm_data_def to_csv_def good_run_def)

section \<open>Properties of the data shaper\<close>

text \<open>
  C8. Whenever \<open>process_gdm_data\<close> returns \<open>True\<close>, the file it wrote holds a frame with as
  many rows as the two sheets together; its column \<open>GDM\<close> holds 0 for the rows of the NGDM
  sheet, which come first, and 1 for the rows of the GDM sheet, which follow; and every
  other column is a whole column of the NGDM sheet (or the injected \<open>No Treatment\<close>
  column) followed by a whole column of the GDM sheet, both under the stripped name, so
  each block keeps the row order of its sheet.
\<close>

theorem shaper_rows_and_labels:
  assumes "process_gdm_data w fs file_path output_file = (True, fs')"
    and "read_excel fs file_path ''GDM'' = Inr gdm_sheet"
    and "read_excel fs file_path ''NGDM'' = Inr ngdm_sheet"
  shows "\<exists>combined.
     fs' = fs(output_file \<mapsto> Csv combined) \<and>
     nrows combined = nrows gdm_sheet + nrows ngdm_sheet \<and>
     ''GDM'' \<in> set (columns combined) \<and>
     (\<forall>(c, vs) \<in> set (cols combined).
        if c = ''GDM''
        then vs = replicate (nrows ngdm_sheet) (PyNum 0) @ replicate (nrows gdm_sheet) (PyNum 1)
        else \<exists>xs ys. vs = xs @ ys \<and>
               ((c, xs) \<in> set (cols (strip_columns ngdm_sheet)) \<or>
                c = ''Type of treatment'' \<and>
                xs = replicate (nrows ngdm_sheet) (PyStr ''No Treatment'')) \<and>
               (c, ys) \<in> set (cols (strip_columns gdm_sheet)))"
proof -
  from assms(1) have "fst (process_gdm_data w fs file_path output_file)" by simp
  then obtain combined where
    sh: "shape_sheets (str_hash w) gdm_sheet ngdm_sheet = Inr combined"
    and out: "snd (process_gdm_data w fs file_path output_file) = fs(output_file \<mapsto> Csv combined)"
    unfolding process_gdm_data_True using assms(2,3) by auto
  from out assms(1) have "fs' = fs(output_file \<mapsto> Csv combined)" by simp
  with shape_sheets_Inr [OF sh] show ?thesis by blast
qed

theorem shaper_rows_and_labels_witness:
  "\<exists>combined.
     process_gdm_data good_run example_files ''GDM_UOS.xlsx'' ''GDM_UOS_NoC.csv'' =
       (True, example_files(''GDM_UOS_NoC.csv'' \<mapsto> Csv combined)) \<and>
     nrows combined = 5 \<and>
     (''GDM'', [PyNum 0, PyNum 0, PyNum 0, PyNum 1, PyNum 1]) \<in> set (cols combined)"
proof -
  let ?out = "process_gdm_data good_run example_files ''GDM_UOS.xlsx'' ''GDM_UOS_NoC.csv''"
  have "fst ?out" by (simp add: example_run)
  then have run: "?out = (True, snd ?out)" by (cases ?out) simp
  from shaper_rows_and_labels [OF run example_reads(2,3)] obtain combined where
    c: "snd ?out = example_files(''GDM_UOS_NoC.csv'' \<mapsto> Csv combined)"
      "nrows combined = nrows gdm_example + nrows ngdm_example"
      "''GDM'' \<in> set (columns combined)"
      "\<forall>(c, vs) \<in> set (cols combined).
        if c = ''GDM''
        then vs = replicate (nrows ngdm_example) (PyNum 0) @ replicate (nrows gdm_example) (PyNum 1)
        else \<exists>xs ys. vs = xs @ ys \<and>
               ((c, xs) \<in> set (cols (strip_columns ngdm_example)) \<or>
                c = ''Type of treatment'' \<and>
                xs = replicate (nrows ngdm_example) (PyStr ''No Treatment'')) \<and>
               (c, ys) \<in> set (cols (strip_columns gdm_example))"
    by blast
  from c(3) obtain vs where m: "(''GDM'', vs) \<in> set (cols combined)"
    by (auto simp: columns_def)
  with c(4) have "vs = replicate (nrows ngdm_example) (PyNum 0) @ replicate (nrows gdm_example) (PyNum 1)"
    by fastforce
  then have "vs = [PyNum 0, PyNum 0, PyNum 0, PyNum 1, PyNum 1]"
    by (simp add: gdm_example_def ngdm_example_def numeral_3_eq_3 numeral_2_eq_2)
  with m c(2) run c(1) show ?thesis
    by (auto simp: gdm_example_def ngdm_example_def)
qed




end
